theory Spec2Isabelle
  imports Main
begin

section \<open>Data model\<close>

text \<open>
  The values handled by \<^verbatim>\<open>packages/appium/lib/utils.js\<close>. JSON data are
  \<open>JNull\<close>, \<open>JBool\<close>, \<open>JNum\<close>, \<open>JStr\<close>, \<open>JArr\<close> and \<open>JObj\<close>; a \<open>JObj\<close> is a plain object
  whose prototype is \<^verbatim>\<open>Object.prototype\<close>, given by its own enumerable properties in
  the order in which JavaScript enumerates them. \<open>JExotic x\<close> is any other object of the
  runtime (an object whose prototype was replaced, an array that carries named
  properties, \<^verbatim>\<open>Object.prototype\<close> itself, a built-in function); what the runtime and
  lodash do with such a value is not fixed here but taken from the record \<open>runtime\<close>
  below. JSON data are trees: no array or object occurs at two places. Strings are
  sequences of code units below 256. Numbers are carried as integers. Logging is not
  modelled.
\<close>

datatype 'x json =
    JNull
  | JBool bool
  | JNum int
  | JStr string
  | JArr "'x json list"
  | JObj "(string \<times> 'x json) list"
  | JExotic 'x

type_synonym 'x obj = "(string \<times> 'x json) list"

section \<open>Errors\<close>

text \<open>
  Exceptions are values. \<open>Error m\<close> is \<^verbatim>\<open>new Error(m)\<close> with a fixed message;
  \<open>NotRecognizedKey argName knownArgs\<close> is the \<^verbatim>\<open>Error\<close> of \<^verbatim>\<open>parseKnownArgs\<close>,
  whose message interpolates the offending name and the list of known names;
  \<open>TypeError\<close> and \<open>RangeError\<close> are raised by the runtime. The collaborators imported
  from other packages either return a value or throw some exception.
\<close>

datatype exn =
    Error string
  | NotRecognizedKey string "string list"
  | TypeError
  | RangeError

text \<open>
  What this file imports and does not define: lodash's \<^verbatim>\<open>_.has\<close> (which reads its
  second argument as a property name or as a path), the behaviour of the runtime and of
  lodash on values that are not JSON data (\<open>x_isPlainObject\<close> to \<open>x_delete\<close>), writing a
  named property on an array (\<open>arr_set\<close>), the object that results when the prototype of
  a plain object is replaced (\<open>set_proto\<close>), and the properties that a plain object
  inherits from \<^verbatim>\<open>Object.prototype\<close> (\<open>proto_get\<close>). \<open>x_first_set\<close> is
  \<^verbatim>\<open>firstMatch[0][k] = v\<close> for a \<^verbatim>\<open>firstMatch\<close> that is not JSON data,
  \<open>x_mergeDefaults\<close> is the loop that merges the default capabilities, run on a payload
  that is not a \<open>JObj\<close>, \<open>x_cloneDeep\<close> is \<^verbatim>\<open>_.cloneDeep\<close> on a value that is not
  JSON data, \<open>x_isString\<close> is \<^verbatim>\<open>_.isString\<close> on such a value, and \<open>x_read\<close> is the
  property read \<^verbatim>\<open>v[k]\<close> on a value that is neither a \<open>JObj\<close> nor \<^verbatim>\<open>null\<close>
  (\<open>None\<close> is \<^verbatim>\<open>undefined\<close>).
\<close>

record 'x runtime =
  has :: "'x json \<Rightarrow> string \<Rightarrow> bool"
  x_isPlainObject :: "'x \<Rightarrow> bool"
  x_isEmpty :: "'x \<Rightarrow> bool"
  x_toPairs :: "'x \<Rightarrow> (string \<times> 'x json) list"
  x_iterate :: "'x \<Rightarrow> exn + 'x json list"
  x_set :: "'x \<Rightarrow> string \<Rightarrow> 'x json \<Rightarrow> exn + 'x json"
  arr_set :: "'x json list \<Rightarrow> string \<Rightarrow> 'x json \<Rightarrow> exn + 'x json"
  x_delete :: "'x \<Rightarrow> string \<Rightarrow> 'x json"
  set_proto :: "(string \<times> 'x json) list \<Rightarrow> 'x json \<Rightarrow> 'x"
  proto_get :: "string \<Rightarrow> 'x json option"
  x_first_set :: "'x \<Rightarrow> string \<Rightarrow> 'x json \<Rightarrow> exn + 'x json"
  x_mergeDefaults :: "'x json \<Rightarrow> (string \<times> 'x json) list \<Rightarrow> exn + 'x json"
  x_cloneDeep :: "'x \<Rightarrow> 'x json"
  x_isString :: "'x \<Rightarrow> bool"
  x_read :: "'x json \<Rightarrow> string \<Rightarrow> exn + 'x json option"

section \<open>Own properties of a plain object\<close>

text \<open>
  JavaScript enumerates the own string keys of an object with the array indices first, in
  ascending numeric order, and the other keys after them, in the order of their creation.
  An array index is the canonical decimal form of an integer below \<open>2^32 - 1\<close>.
\<close>

fun index_key :: "nat \<Rightarrow> string" where
  "index_key n =
    (if n < 10 then [char_of (48 + n)]
     else index_key (n div 10) @ [char_of (48 + n mod 10)])"

definition is_digit :: "char \<Rightarrow> bool" where
  "is_digit c = (48 \<le> (of_char c :: nat) \<and> (of_char c :: nat) \<le> 57)"

definition digits_value :: "string \<Rightarrow> nat" where
  "digits_value s = foldl (\<lambda>n c. 10 * n + ((of_char c :: nat) - 48)) 0 s"

definition array_index :: "string \<Rightarrow> nat option" where
  "array_index k =
    (if k \<noteq> [] \<and> list_all is_digit k \<and> (k = ''0'' \<or> hd k \<noteq> CHR ''0'')
        \<and> digits_value k < 4294967295
     then Some (digits_value k) else None)"

definition goes_before :: "string \<Rightarrow> string \<Rightarrow> bool" where
  "goes_before k k' =
    (case array_index k of
       None \<Rightarrow> False
     | Some n \<Rightarrow> (case array_index k' of None \<Rightarrow> True | Some m \<Rightarrow> n < m))"

text \<open>A new own property takes its place in the enumeration order.\<close>

fun obj_add :: "string \<Rightarrow> 'x json \<Rightarrow> 'x obj \<Rightarrow> 'x obj" where
  "obj_add k v [] = [(k, v)]"
| "obj_add k v (p # ps) =
    (if goes_before k (fst p) then (k, v) # p # ps else p # obj_add k v ps)"

text \<open>The value of an existing own property is replaced in place.\<close>

fun obj_replace :: "string \<Rightarrow> 'x json \<Rightarrow> 'x obj \<Rightarrow> 'x obj" where
  "obj_replace k v [] = []"
| "obj_replace k v (p # ps) = (if fst p = k then (k, v) # ps else p # obj_replace k v ps)"

text \<open>
  \<^verbatim>\<open>{[k]: v}\<close>-style definition of an own property (object literals with computed
  keys, object spread): an own property is created or replaced, whatever its name.
\<close>

definition obj_define :: "string \<Rightarrow> 'x json \<Rightarrow> 'x obj \<Rightarrow> 'x obj" where
  "obj_define k v d = (if k \<in> fst ` set d then obj_replace k v d else obj_add k v d)"

text \<open>\<^verbatim>\<open>delete o[k]\<close> on a plain object.\<close>

definition obj_delete :: "string \<Rightarrow> 'x obj \<Rightarrow> 'x obj" where
  "obj_delete k d = filter (\<lambda>p. fst p \<noteq> k) d"

text \<open>
  A list is the content of an object when its keys are distinct and stand in enumeration
  order.
\<close>

fun key_ordered :: "string list \<Rightarrow> bool" where
  "key_ordered [] = True"
| "key_ordered (k # ks) = (list_all (\<lambda>k'. \<not> goes_before k' k) ks \<and> key_ordered ks)"

definition wf_obj :: "'x obj \<Rightarrow> bool" where
  "wf_obj d = (distinct (map fst d) \<and> key_ordered (map fst d))"

section \<open>Runtime and lodash on values\<close>

text \<open>
  \<^verbatim>\<open>target[k] = v\<close> in this strict-mode module. On a plain object an own property is
  replaced; otherwise the name \<^verbatim>\<open>__proto__\<close> reaches the setter of
  \<^verbatim>\<open>Object.prototype\<close>, which replaces the prototype when \<open>v\<close> is an object or
  \<^verbatim>\<open>null\<close> and does nothing when \<open>v\<close> is a primitive, and creates no own property; any
  other name becomes a new own property. Writing on \<^verbatim>\<open>null\<close> throws; writing on a
  primitive throws unless the name is \<^verbatim>\<open>__proto__\<close>, for which the setter returns
  without effect.
\<close>

fun is_primitive :: "'x json \<Rightarrow> bool" where
  "is_primitive (JBool b) = True"
| "is_primitive (JNum n) = True"
| "is_primitive (JStr s) = True"
| "is_primitive _ = False"

fun set_prop :: "'x runtime \<Rightarrow> 'x json \<Rightarrow> string \<Rightarrow> 'x json \<Rightarrow> exn + 'x json" where
  "set_prop rt JNull k v = Inl TypeError"
| "set_prop rt (JBool b) k v = (if k = ''__proto__'' then Inr (JBool b) else Inl TypeError)"
| "set_prop rt (JNum n) k v = (if k = ''__proto__'' then Inr (JNum n) else Inl TypeError)"
| "set_prop rt (JStr s) k v = (if k = ''__proto__'' then Inr (JStr s) else Inl TypeError)"
| "set_prop rt (JObj d) k v =
    (if k \<in> fst ` set d then Inr (JObj (obj_replace k v d))
     else if k = ''__proto__''
     then (if is_primitive v then Inr (JObj d) else Inr (JExotic (set_proto rt d v)))
     else Inr (JObj (obj_add k v d)))"
| "set_prop rt (JArr xs) k v = arr_set rt xs k v"
| "set_prop rt (JExotic x) k v = x_set rt x k v"

text \<open>\<^verbatim>\<open>_.isPlainObject\<close>, \<^verbatim>\<open>_.isEmpty\<close> and \<^verbatim>\<open>_.toPairs\<close> (the own enumerable pairs).\<close>

fun isPlainObject :: "'x runtime \<Rightarrow> 'x json \<Rightarrow> bool" where
  "isPlainObject rt (JObj d) = True"
| "isPlainObject rt (JExotic x) = x_isPlainObject rt x"
| "isPlainObject rt _ = False"

fun isEmpty :: "'x runtime \<Rightarrow> 'x json \<Rightarrow> bool" where
  "isEmpty rt (JObj d) = (d = [])"
| "isEmpty rt (JArr xs) = (xs = [])"
| "isEmpty rt (JStr s) = (s = [])"
| "isEmpty rt (JExotic x) = x_isEmpty rt x"
| "isEmpty rt _ = True"

fun toPairs :: "'x runtime \<Rightarrow> 'x json \<Rightarrow> (string \<times> 'x json) list" where
  "toPairs rt (JObj d) = d"
| "toPairs rt (JArr xs) = zip (map index_key [0..<length xs]) xs"
| "toPairs rt (JStr s) = zip (map index_key [0..<length s]) (map (\<lambda>c. JStr [c]) s)"
| "toPairs rt (JExotic x) = x_toPairs rt x"
| "toPairs rt _ = []"

text \<open>
  \<^verbatim>\<open>Object.assign(target, source)\<close>: every own enumerable pair of the source is
  written to the target with \<^verbatim>\<open>target[k] = v\<close>, in order.
\<close>

fun assign_pairs :: "'x runtime \<Rightarrow> 'x json \<Rightarrow> (string \<times> 'x json) list \<Rightarrow> exn + 'x json" where
  "assign_pairs rt target [] = Inr target"
| "assign_pairs rt target (p # ps) =
    (case set_prop rt target (fst p) (snd p) of
       Inl e \<Rightarrow> Inl e
     | Inr target' \<Rightarrow> assign_pairs rt target' ps)"

definition Object_assign :: "'x runtime \<Rightarrow> 'x json \<Rightarrow> 'x json \<Rightarrow> exn + 'x json" where
  "Object_assign rt target source = assign_pairs rt target (toPairs rt source)"

text \<open>
  \<^verbatim>\<open>_.assign(target, source)\<close> on a plain object as target: lodash defines an own
  property for every own enumerable pair of the source, also for the name
  \<^verbatim>\<open>__proto__\<close>.
\<close>

definition lodash_assign :: "'x runtime \<Rightarrow> 'x obj \<Rightarrow> 'x json \<Rightarrow> 'x obj" where
  "lodash_assign rt target source =
    foldl (\<lambda>t p. obj_define (fst p) (snd p) t) target (toPairs rt source)"

text \<open>Object spread \<^verbatim>\<open>{...source}\<close>: a new object with the own enumerable pairs.\<close>

definition spread :: "'x runtime \<Rightarrow> 'x json \<Rightarrow> 'x obj" where
  "spread rt source = foldl (\<lambda>t p. obj_define (fst p) (snd p) t) [] (toPairs rt source)"

section \<open>PrefixCodec\<close>

definition W3C_APPIUM_PREFIX :: string where
  "W3C_APPIUM_PREFIX = ''appium''"

definition STANDARD_CAPS :: "string list" where
  "STANDARD_CAPS =
    [''browserName'', ''browserVersion'', ''platformName'', ''acceptInsecureCerts'',
     ''pageLoadStrategy'', ''proxy'', ''setWindowRect'', ''timeouts'',
     ''unhandledPromptBehavior'']"

definition startsWith :: "string \<Rightarrow> string \<Rightarrow> bool" where
  "startsWith s p = (take (length p) s = p)"

definition removeAppiumPrefix :: "string \<Rightarrow> string" where
  "removeAppiumPrefix key =
    (let prefix = W3C_APPIUM_PREFIX @ '':''
     in if startsWith key prefix then drop (length prefix) key else key)"

text \<open>The name under which \<^verbatim>\<open>insertAppiumPrefixes\<close> stores a capability.\<close>

definition prefixed_name :: "string \<Rightarrow> string" where
  "prefixed_name name =
    (if name \<in> set STANDARD_CAPS \<or> CHR '':'' \<in> set name then name
     else W3C_APPIUM_PREFIX @ '':'' @ name)"

definition insertAppiumPrefixes :: "'x runtime \<Rightarrow> 'x json \<Rightarrow> exn + 'x json" where
  "insertAppiumPrefixes rt caps =
    assign_pairs rt (JObj []) (map (\<lambda>p. (prefixed_name (fst p), snd p)) (toPairs rt caps))"

definition removeAppiumPrefixes :: "'x runtime \<Rightarrow> 'x json \<Rightarrow> exn + 'x json" where
  "removeAppiumPrefixes rt caps =
    (if \<not> isPlainObject rt caps then Inr caps
     else assign_pairs rt (JObj [])
            (map (\<lambda>p. (removeAppiumPrefix (fst p), snd p)) (toPairs rt caps)))"

section \<open>ArgConstraintValidator\<close>

text \<open>
  \<^verbatim>\<open>_.isString\<close>, and the property read \<^verbatim>\<open>parsedExtensionArgs[extensionName]\<close>: on
  a plain object it is the own property of that name or, without one, what
  \<^verbatim>\<open>Object.prototype\<close> has under the name; on \<^verbatim>\<open>null\<close> it throws.
\<close>

fun isString :: "'x runtime \<Rightarrow> 'x json \<Rightarrow> bool" where
  "isString rt (JStr s) = True"
| "isString rt (JExotic x) = x_isString rt x"
| "isString rt _ = False"

fun read_prop :: "'x runtime \<Rightarrow> 'x json \<Rightarrow> string \<Rightarrow> exn + 'x json option" where
  "read_prop rt (JObj d) k =
    Inr (case map_of d k of Some v \<Rightarrow> Some v | None \<Rightarrow> proto_get rt k)"
| "read_prop rt JNull k = Inl TypeError"
| "read_prop rt v k = x_read rt v k"

text \<open>
  \<^verbatim>\<open>parseExtensionArgs\<close>. The blob loader \<^verbatim>\<open>parseJsonStringOrFile\<close> is a parameter;
  it returns the parsed value or throws.
\<close>

definition parseExtensionArgs ::
  "'x runtime \<Rightarrow> ('x json \<Rightarrow> exn + 'x json) \<Rightarrow> 'x json \<Rightarrow> string \<Rightarrow> exn + 'x json" where
  "parseExtensionArgs rt parseJsonStringOrFile extensionArgs extensionName =
    (if \<not> isString rt extensionArgs then Inr (JObj [])
     else
       (case parseJsonStringOrFile extensionArgs of
          Inl e \<Rightarrow> Inl e
        | Inr parsedExtensionArgs \<Rightarrow>
            (case read_prop rt parsedExtensionArgs extensionName of
               Inl e \<Rightarrow> Inl e
             | Inr None \<Rightarrow> Inl (Error ''Driver or plugin arguments must be plain objects'')
             | Inr (Some extensionSpecificArgs) \<Rightarrow>
                 if \<not> isPlainObject rt extensionSpecificArgs
                 then Inl (Error ''Driver or plugin arguments must be plain objects'')
                 else Inr extensionSpecificArgs)))"

text \<open>The \<^verbatim>\<open>reduce\<close> of \<^verbatim>\<open>parseKnownArgs\<close>: accumulator \<open>args\<close>, remaining pairs.\<close>

fun parseKnownArgs_reduce ::
  "'x runtime \<Rightarrow> string list \<Rightarrow> 'x json \<Rightarrow> 'x obj \<Rightarrow> exn + 'x json" where
  "parseKnownArgs_reduce rt knownArgNames args [] = Inr args"
| "parseKnownArgs_reduce rt knownArgNames args (p # ps) =
    (if fst p \<in> set knownArgNames
     then (case set_prop rt args (fst p) (snd p) of
             Inl e \<Rightarrow> Inl e
           | Inr args' \<Rightarrow> parseKnownArgs_reduce rt knownArgNames args' ps)
     else Inl (NotRecognizedKey (fst p) knownArgNames))"

definition parseKnownArgs :: "'x runtime \<Rightarrow> 'x obj \<Rightarrow> 'x obj \<Rightarrow> exn + 'x json" where
  "parseKnownArgs rt driverPluginArgs argsConstraints =
    (let knownArgNames = map fst argsConstraints
     in parseKnownArgs_reduce rt knownArgNames (JObj []) driverPluginArgs)"

text \<open>
  \<^verbatim>\<open>parseDriverPluginArgs\<close>, with the validator \<^verbatim>\<open>validateCaps\<close> as a parameter. The
  caller's \<open>args\<close> object is state: the function returns its outcome together with the
  content of that object after the call. \<^verbatim>\<open>_.assign(args, parsedArgs)\<close> writes into
  \<open>args\<close> and returns that same object.
\<close>

definition parseDriverPluginArgs ::
  "'x runtime \<Rightarrow> ('x json \<Rightarrow> 'x obj \<Rightarrow> exn + 'x json) \<Rightarrow> 'x obj \<Rightarrow> 'x obj \<Rightarrow> 'x obj
    \<Rightarrow> (exn + 'x obj) \<times> 'x obj" where
  "parseDriverPluginArgs rt validateCaps args driverPluginArgs argsConstraints =
    (if driverPluginArgs = [] \<or> argsConstraints = [] then (Inr args, args)
     else
       (case parseKnownArgs rt driverPluginArgs argsConstraints of
          Inl e \<Rightarrow> (Inl e, args)
        | Inr parsedArgs \<Rightarrow>
            (case validateCaps parsedArgs argsConstraints of
               Inl e \<Rightarrow> (Inl e, args)
             | Inr parsedArgs' \<Rightarrow>
                 (let args' = lodash_assign rt args parsedArgs' in (Inr args', args')))))"

section \<open>SettingsExtractor\<close>

text \<open>
  The regular expression \<^verbatim>\<open>/\bsettings\[(\S+)\]$/\<close>. \<^verbatim>\<open>\w\<close> is
  \<^verbatim>\<open>[A-Za-z0-9_]\<close>; \<^verbatim>\<open>\s\<close>, below code 256, is tab, line feed, vertical tab, form
  feed, carriage return, space and no-break space.
\<close>

definition is_word_char :: "char \<Rightarrow> bool" where
  "is_word_char c =
    (let n = (of_char c :: nat)
     in (48 \<le> n \<and> n \<le> 57) \<or> (65 \<le> n \<and> n \<le> 90) \<or> n = 95 \<or> (97 \<le> n \<and> n \<le> 122))"

definition is_whitespace :: "char \<Rightarrow> bool" where
  "is_whitespace c = ((of_char c :: nat) \<in> set [9, 10, 11, 12, 13, 32, 160])"

text \<open>\<^verbatim>\<open>\b\<close> between two neighbouring positions (\<open>None\<close> is the edge of the string).\<close>

definition word_boundary :: "char option \<Rightarrow> char option \<Rightarrow> bool" where
  "word_boundary a b =
    ((case a of None \<Rightarrow> False | Some c \<Rightarrow> is_word_char c)
      \<noteq> (case b of None \<Rightarrow> False | Some c \<Rightarrow> is_word_char c))"

text \<open>
  \<^verbatim>\<open>settings\[(\S+)\]$\<close> matched from the first character of \<open>s\<close>: since \<^verbatim>\<open>$\<close> is
  the end of the string, the group is everything between \<^verbatim>\<open>settings[\<close> and the final
  \<^verbatim>\<open>]\<close>.
\<close>

definition settings_here :: "string \<Rightarrow> string option" where
  "settings_here s =
    (if startsWith s ''settings[''
     then (let rest = drop (length ''settings['') s
           in if 2 \<le> length rest \<and> last rest = CHR '']''
                 \<and> list_all (\<lambda>c. \<not> is_whitespace c) (butlast rest)
              then Some (butlast rest) else None)
     else None)"

text \<open>\<^verbatim>\<open>exec\<close> tries the start positions from the left; \<open>prev\<close> is the character before.\<close>

fun settings_scan :: "char option \<Rightarrow> string \<Rightarrow> string option" where
  "settings_scan prev [] = None"
| "settings_scan prev (c # cs) =
    (case (if word_boundary prev (Some c) then settings_here (c # cs) else None) of
       Some name \<Rightarrow> Some name
     | None \<Rightarrow> settings_scan (Some c) cs)"

definition settings_match :: "string \<Rightarrow> string option" where
  "settings_match key = settings_scan None key"

text \<open>
  The loop of \<^verbatim>\<open>pullSettings\<close> over the pairs taken at its start, with the \<open>result\<close>
  built so far and the current content of \<open>caps\<close>. A throw leaves \<open>caps\<close> as it is at
  that point.
\<close>

fun delete_prop :: "'x runtime \<Rightarrow> 'x json \<Rightarrow> string \<Rightarrow> 'x json" where
  "delete_prop rt (JObj d) k = JObj (obj_delete k d)"
| "delete_prop rt (JExotic x) k = x_delete rt x k"
| "delete_prop rt v k = v"

fun pullSettings_loop ::
  "'x runtime \<Rightarrow> 'x obj \<Rightarrow> 'x json \<Rightarrow> 'x json \<Rightarrow> (exn + 'x json) \<times> 'x json" where
  "pullSettings_loop rt [] result caps = (Inr result, caps)"
| "pullSettings_loop rt (p # ps) result caps =
    (case settings_match (fst p) of
       None \<Rightarrow> pullSettings_loop rt ps result caps
     | Some name \<Rightarrow>
         (case set_prop rt result name (snd p) of
            Inl e \<Rightarrow> (Inl e, caps)
          | Inr result' \<Rightarrow> pullSettings_loop rt ps result' (delete_prop rt caps (fst p))))"

text \<open>\<^verbatim>\<open>pullSettings\<close> returns its result and the content of \<open>caps\<close> after the call.\<close>

definition pullSettings :: "'x runtime \<Rightarrow> 'x json \<Rightarrow> (exn + 'x json) \<times> 'x json" where
  "pullSettings rt caps =
    (if \<not> isPlainObject rt caps \<or> isEmpty rt caps then (Inr (JObj []), caps)
     else pullSettings_loop rt (toPairs rt caps) (JObj []) caps)"

section \<open>CapabilityNegotiator\<close>

text \<open>
  The values that \<^verbatim>\<open>for (... of (w3cCapabilities.firstMatch || []))\<close> iterates: nothing
  for a missing or falsy \<^verbatim>\<open>firstMatch\<close>, the elements of an array, the characters of a
  string; a boolean, a number or a plain object is not iterable.
\<close>

fun firstMatch_entries :: "'x runtime \<Rightarrow> 'x json option \<Rightarrow> exn + 'x json list" where
  "firstMatch_entries rt None = Inr []"
| "firstMatch_entries rt (Some JNull) = Inr []"
| "firstMatch_entries rt (Some (JBool b)) = (if b then Inl TypeError else Inr [])"
| "firstMatch_entries rt (Some (JNum n)) = (if n = 0 then Inr [] else Inl TypeError)"
| "firstMatch_entries rt (Some (JStr s)) = Inr (map (\<lambda>c. JStr [c]) s)"
| "firstMatch_entries rt (Some (JArr xs)) = Inr xs"
| "firstMatch_entries rt (Some (JObj d)) = Inl TypeError"
| "firstMatch_entries rt (Some (JExotic x)) = x_iterate rt x"

text \<open>
  \<^verbatim>\<open>_.isPlainObject(v) && _.has(removeAppiumPrefixes(v), removeAppiumPrefix(key))\<close>.
\<close>

definition hasStripped :: "'x runtime \<Rightarrow> 'x json \<Rightarrow> string \<Rightarrow> exn + bool" where
  "hasStripped rt v defaultCapKey =
    (if isPlainObject rt v
     then (case removeAppiumPrefixes rt v of
             Inl e \<Rightarrow> Inl e
           | Inr fixedCaps \<Rightarrow> Inr (has rt fixedCaps (removeAppiumPrefix defaultCapKey)))
     else Inr False)"

text \<open>The inner loop over the \<^verbatim>\<open>firstMatch\<close> entries, which stops at the first hit.\<close>

fun inFirstMatch :: "'x runtime \<Rightarrow> 'x json list \<Rightarrow> string \<Rightarrow> exn + bool" where
  "inFirstMatch rt [] defaultCapKey = Inr False"
| "inFirstMatch rt (firstMatchEntry # es) defaultCapKey =
    (case hasStripped rt firstMatchEntry defaultCapKey of
       Inl e \<Rightarrow> Inl e
     | Inr True \<Rightarrow> Inr True
     | Inr False \<Rightarrow> inFirstMatch rt es defaultCapKey)"

text \<open>
  \<^verbatim>\<open>w3cCapabilities.firstMatch[0][defaultCapKey] = defaultCapValue\<close> for a non-empty
  \<^verbatim>\<open>firstMatch\<close>: the new value of \<^verbatim>\<open>firstMatch\<close>. The character of a string is
  a primitive, and the string itself stays as it is.
\<close>

fun set_in_first :: "'x runtime \<Rightarrow> 'x json \<Rightarrow> string \<Rightarrow> 'x json \<Rightarrow> exn + 'x json" where
  "set_in_first rt (JArr (first # es)) k v =
    (case set_prop rt first k v of Inl e \<Rightarrow> Inl e | Inr first' \<Rightarrow> Inr (JArr (first' # es)))"
| "set_in_first rt (JStr (c # cs)) k v =
    (case set_prop rt (JStr [c]) k v of Inl e \<Rightarrow> Inl e | Inr c' \<Rightarrow> Inr (JStr (c # cs)))"
| "set_in_first rt (JExotic x) k v = x_first_set rt x k v"
| "set_in_first rt firstMatch k v = Inl TypeError"

text \<open>
  The body of the loop over the default capabilities, for one pair, on the content of the
  (cloned) W3C payload object.
\<close>

definition mergeDefault :: "'x runtime \<Rightarrow> 'x obj \<Rightarrow> string \<times> 'x json \<Rightarrow> exn + 'x obj" where
  "mergeDefault rt w3cCapabilities p =
    (let defaultCapKey = fst p; defaultCapValue = snd p
     in case firstMatch_entries rt (map_of w3cCapabilities ''firstMatch'') of
          Inl e \<Rightarrow> Inl e
        | Inr entries \<Rightarrow>
            (case inFirstMatch rt entries defaultCapKey of
               Inl e \<Rightarrow> Inl e
             | Inr inFirst \<Rightarrow>
                 (case (if inFirst then Inr True
                        else (case map_of w3cCapabilities ''alwaysMatch'' of
                                None \<Rightarrow> Inr False
                              | Some alwaysMatch \<Rightarrow> hasStripped rt alwaysMatch defaultCapKey)) of
                    Inl e \<Rightarrow> Inl e
                  | Inr isCapAlreadySet \<Rightarrow>
                      if isCapAlreadySet then Inr w3cCapabilities
                      else (case map_of w3cCapabilities ''firstMatch'' of
                              None \<Rightarrow>
                                Inr (obj_define ''firstMatch''
                                       (JArr [JObj [(defaultCapKey, defaultCapValue)]])
                                       w3cCapabilities)
                            | Some firstMatch \<Rightarrow>
                                if isEmpty rt firstMatch
                                then Inr (obj_define ''firstMatch''
                                            (JArr [JObj [(defaultCapKey, defaultCapValue)]])
                                            w3cCapabilities)
                                else (case set_in_first rt firstMatch defaultCapKey
                                             defaultCapValue of
                                        Inl e \<Rightarrow> Inl e
                                      | Inr firstMatch' \<Rightarrow>
                                          Inr (obj_replace ''firstMatch'' firstMatch'
                                                 w3cCapabilities))))))"

fun mergeDefaults :: "'x runtime \<Rightarrow> 'x obj \<Rightarrow> (string \<times> 'x json) list \<Rightarrow> exn + 'x obj" where
  "mergeDefaults rt w3cCapabilities [] = Inr w3cCapabilities"
| "mergeDefaults rt w3cCapabilities (p # ps) =
    (case mergeDefault rt w3cCapabilities p of
       Inl e \<Rightarrow> Inl e
     | Inr w3cCapabilities' \<Rightarrow> mergeDefaults rt w3cCapabilities' ps)"

text \<open>
  The deep copy that \<^verbatim>\<open>_.cloneDeep\<close> makes of a value: arrays and plain objects are
  copied element by element, primitives are themselves.
\<close>

primrec deep_copy :: "'x runtime \<Rightarrow> 'x json \<Rightarrow> 'x json" where
  "deep_copy rt JNull = JNull"
| "deep_copy rt (JBool b) = JBool b"
| "deep_copy rt (JNum n) = JNum n"
| "deep_copy rt (JStr s) = JStr s"
| "deep_copy rt (JArr xs) = JArr (map (deep_copy rt) xs)"
| "deep_copy rt (JObj d) = JObj (map (map_prod id (deep_copy rt)) d)"
| "deep_copy rt (JExotic x) = x_cloneDeep rt x"

text \<open>
  The objects of the caller live in a store: a list of cells, each holding one value,
  addressed by position. The arguments \<open>jsonwpCapabilities\<close>, \<open>w3cCapabilities\<close> and
  \<open>defaultCapabilities\<close> are addresses. \<^verbatim>\<open>_.cloneDeep\<close> puts the deep copy of the value
  of a cell into a fresh cell; every later write goes to the cell that the variable is
  bound to at that point.
\<close>

type_synonym 'x heap = "'x json list"

definition cloneDeep :: "'x runtime \<Rightarrow> nat \<Rightarrow> 'x heap \<Rightarrow> nat \<times> 'x heap" where
  "cloneDeep rt a h = (length h, h @ [deep_copy rt (h ! a)])"

definition alloc :: "'x json \<Rightarrow> 'x heap \<Rightarrow> nat \<times> 'x heap" where
  "alloc v h = (length h, h @ [v])"

text \<open>
  \<^verbatim>\<open>Object.assign({}, removeAppiumPrefixes(defaultCapabilities), jsonwpCapabilities)\<close>.
\<close>

definition legacyWithDefaults :: "'x runtime \<Rightarrow> 'x json \<Rightarrow> 'x json \<Rightarrow> exn + 'x json" where
  "legacyWithDefaults rt defaultCapabilities jsonwpCapabilities =
    (case removeAppiumPrefixes rt defaultCapabilities of
       Inl e \<Rightarrow> Inl e
     | Inr fixedCaps \<Rightarrow>
         (case Object_assign rt (JObj []) fixedCaps of
            Inl e \<Rightarrow> Inl e
          | Inr target \<Rightarrow> Object_assign rt target jsonwpCapabilities))"

text \<open>
  The block \<^verbatim>\<open>if (!_.isEmpty(defaultCapabilities)) { ... }\<close>: it writes the merged
  payload to the cell of \<open>w3cCapabilities\<close> and rebinds \<open>jsonwpCapabilities\<close> to a new
  object; it returns the binding of \<open>jsonwpCapabilities\<close> and the store. The payload in
  \<^verbatim>\<open>w3cCapabilities.firstMatch\<close> and \<^verbatim>\<open>w3cCapabilities.alwaysMatch\<close> is read as own
  properties, which is what these reads are on a \<open>JObj\<close>. When the loop throws, the cell
  of the clone, which nothing refers to any more, is left as it was before the loop.
\<close>

definition mergeDefaultCapabilities ::
  "'x runtime \<Rightarrow> bool \<Rightarrow> bool \<Rightarrow> 'x heap \<Rightarrow> nat \<Rightarrow> nat \<Rightarrow> nat \<Rightarrow> (exn + nat) \<times> 'x heap" where
  "mergeDefaultCapabilities rt hasW3CCaps hasJSONWPCaps h jsonwpCapabilities w3cCapabilities
      defaultCapabilities =
    (if \<not> isEmpty rt (h ! defaultCapabilities) then
       (case (if hasW3CCaps
              then (case h ! w3cCapabilities of
                      JObj w \<Rightarrow>
                        (case mergeDefaults rt w (toPairs rt (h ! defaultCapabilities)) of
                           Inl e \<Rightarrow> Inl e | Inr w' \<Rightarrow> Inr (JObj w'))
                    | v \<Rightarrow> x_mergeDefaults rt v (toPairs rt (h ! defaultCapabilities)))
              else Inr (h ! w3cCapabilities)) of
          Inl e \<Rightarrow> (Inl e, h)
        | Inr merged \<Rightarrow>
            (let h1 = h[w3cCapabilities := merged]
             in if hasJSONWPCaps
                then (case legacyWithDefaults rt (h1 ! defaultCapabilities)
                             (h1 ! jsonwpCapabilities) of
                        Inl e \<Rightarrow> (Inl e, h1)
                      | Inr v \<Rightarrow> (let (a, h2) = alloc v h1 in (Inr a, h2)))
                else (Inr jsonwpCapabilities, h1)))
     else (Inr jsonwpCapabilities, h))"

text \<open>
  The result object. A field that the returned object literal does not mention is
  \<open>None\<close>; \<^verbatim>\<open>null\<close> is \<open>Some JNull\<close>. \<open>PROTOCOLS.W3C\<close> and the matching engine
  \<^verbatim>\<open>processCapabilities\<close> are imported from another package and are parameters.
\<close>

record ('x, 'p) result =
  desiredCaps :: "'x json option"
  processedJsonwpCapabilities :: "'x json option"
  processedW3CCapabilities :: "'x json option"
  protocol :: 'p
  error :: "exn option"

definition parseCapsForInnerDriver ::
  "'x runtime \<Rightarrow> 'p \<Rightarrow> ('x json \<Rightarrow> 'x json \<Rightarrow> bool \<Rightarrow> exn + 'x json) \<Rightarrow> 'x heap
    \<Rightarrow> nat \<Rightarrow> nat \<Rightarrow> 'x json \<Rightarrow> nat \<Rightarrow> (exn + ('x, 'p) result) \<times> 'x heap" where
  "parseCapsForInnerDriver rt PROTOCOLS_W3C processCapabilities h jsonwpCapabilities
      w3cCapabilities constraints defaultCapabilities =
    (let hasW3CCaps = (isPlainObject rt (h ! w3cCapabilities)
           \<and> (has rt (h ! w3cCapabilities) ''alwaysMatch''
                \<or> has rt (h ! w3cCapabilities) ''firstMatch''));
         hasJSONWPCaps = isPlainObject rt (h ! jsonwpCapabilities)
     in if \<not> hasW3CCaps
        then (Inr \<lparr>desiredCaps = None, processedJsonwpCapabilities = None,
                    processedW3CCapabilities = None, protocol = PROTOCOLS_W3C,
                    error = Some (Error ''W3C capabilities should be provided'')\<rparr>, h)
        else
          (let (jsonwp1, h1) = cloneDeep rt jsonwpCapabilities h;
               (w3c1, h2) = cloneDeep rt w3cCapabilities h1;
               (default1, h3) = cloneDeep rt defaultCapabilities h2
           in case mergeDefaultCapabilities rt hasW3CCaps hasJSONWPCaps h3 jsonwp1 w3c1
                     default1 of
                (Inl e, h4) \<Rightarrow> (Inl e, h4)
              | (Inr jsonwp2, h4) \<Rightarrow>
                  (let processedJsonwp =
                         (if hasJSONWPCaps then JObj (spread rt (h4 ! jsonwp2)) else JNull)
                   in if hasW3CCaps
                      then (case processCapabilities (h4 ! w3c1) constraints True of
                              Inl err \<Rightarrow>
                                (Inr \<lparr>desiredCaps = Some (JObj []),
                                      processedJsonwpCapabilities = Some processedJsonwp,
                                      processedW3CCapabilities = Some JNull,
                                      protocol = PROTOCOLS_W3C, error = Some err\<rparr>, h4)
                            | Inr matched \<Rightarrow>
                                (case insertAppiumPrefixes rt matched of
                                   Inl e \<Rightarrow> (Inl e, h4)
                                 | Inr prefixed \<Rightarrow>
                                     (Inr \<lparr>desiredCaps = Some matched,
                                           processedJsonwpCapabilities = Some processedJsonwp,
                                           processedW3CCapabilities =
                                             Some (JObj [(''alwaysMatch'',
                                                          JObj (spread rt prefixed)),
                                                         (''firstMatch'', JArr [JObj []])]),
                                           protocol = PROTOCOLS_W3C, error = None\<rparr>, h4)))
                      else (Inr \<lparr>desiredCaps = Some (JObj []),
                                  processedJsonwpCapabilities = Some processedJsonwp,
                                  processedW3CCapabilities = Some JNull,
                                  protocol = PROTOCOLS_W3C, error = None\<rparr>, h4))))"

section \<open>A runtime for the examples\<close>

text \<open>
  The examples below run the definitions on JSON data with property names as keys. There
  \<^verbatim>\<open>_.has\<close> is the test for an own property; the other fields of this runtime concern
  values that the examples do not reach, apart from \<open>proto_get\<close>, which gives
  \<^verbatim>\<open>Object.prototype\<close> under the name \<^verbatim>\<open>__proto__\<close>.
\<close>

definition example_runtime :: "string runtime" where
  "example_runtime =
    \<lparr>has = (\<lambda>v k. case v of JObj d \<Rightarrow> k \<in> fst ` set d | _ \<Rightarrow> False),
     x_isPlainObject = (\<lambda>x. x = ''Object.prototype''),
     x_isEmpty = (\<lambda>x. True),
     x_toPairs = (\<lambda>x. []),
     x_iterate = (\<lambda>x. Inl TypeError),
     x_set = (\<lambda>x k v. Inr (JExotic x)),
     arr_set = (\<lambda>xs k v. Inr (JExotic ''array with a named property'')),
     x_delete = (\<lambda>x k. JExotic x),
     set_proto = (\<lambda>d v. ''object with replaced prototype''),
     proto_get = (\<lambda>k. if k = ''__proto__'' then Some (JExotic ''Object.prototype'') else None),
     x_first_set = (\<lambda>x k v. Inr (JExotic x)),
     x_mergeDefaults = (\<lambda>v ps. Inr v),
     x_cloneDeep = (\<lambda>x. JExotic x),
     x_isString = (\<lambda>x. False),
     x_read = (\<lambda>v k. Inr None)\<rparr>"

section \<open>The rule for defaults, in the words of the specification\<close>




section \<open>Facts about own properties\<close>

lemma keys_obj_add: "fst ` set (obj_add k v d) = insert k (fst ` set d)"
  by (induction d) auto



lemma map_of_obj_add: "k \<notin> fst ` set d \<Longrightarrow> map_of (obj_add k v d) = (map_of d)(k \<mapsto> v)"
  by (induction d) (auto simp: fun_eq_iff)

lemma map_of_obj_replace: "k \<in> fst ` set d \<Longrightarrow> map_of (obj_replace k v d) = (map_of d)(k \<mapsto> v)"
  by (induction d) (auto simp: fun_eq_iff rev_image_eqI)

lemma map_of_obj_define: "map_of (obj_define k v d) = (map_of d)(k \<mapsto> v)"
  by (simp add: obj_define_def map_of_obj_add map_of_obj_replace)

lemma obj_add_last:
  "\<forall>k'\<in>fst ` set d. \<not> goes_before k k' \<Longrightarrow> obj_add k v d = d @ [(k, v)]"
  by (induction d) auto

lemma key_ordered_append:
  "key_ordered (xs @ y # ys) \<Longrightarrow> \<forall>x\<in>set xs. \<not> goes_before y x"
  by (induction xs) (auto simp: list_all_iff)

lemma define_next:
  assumes "distinct (map fst (acc @ p # rest))" and "key_ordered (map fst (acc @ p # rest))"
  shows "obj_define (fst p) (snd p) acc = acc @ [p]"
proof -
  have fresh: "fst p \<notin> fst ` set acc" using assms(1) by auto
  have "key_ordered (map fst acc @ fst p # map fst rest)" using assms(2) by simp
  from key_ordered_append [OF this]
  have "\<forall>k'\<in>fst ` set acc. \<not> goes_before (fst p) k'" by auto
  then have "obj_add (fst p) (snd p) acc = acc @ [p]"
    using obj_add_last [of acc "fst p" "snd p"] by simp
  with fresh show ?thesis by (simp add: obj_define_def)
qed

lemma define_all_wf:
  assumes "distinct (map fst (acc @ rest))" and "key_ordered (map fst (acc @ rest))"
  shows "foldl (\<lambda>t p. obj_define (fst p) (snd p) t) acc rest = acc @ rest"
  using assms
proof (induction rest arbitrary: acc)
  case Nil
  then show ?case by simp
next
  case (Cons p rest)
  have step: "obj_define (fst p) (snd p) acc = acc @ [p]"
    using Cons.prems by (rule define_next)
  have "foldl (\<lambda>t p. obj_define (fst p) (snd p) t) (acc @ [p]) rest = (acc @ [p]) @ rest"
    using Cons.IH [of "acc @ [p]"] Cons.prems by simp
  with step show ?case by simp
qed

lemma spread_wf: "wf_obj d \<Longrightarrow> spread rt (JObj d) = d"
  unfolding spread_def wf_obj_def using define_all_wf [of "[]" d] by simp

lemma removeAppiumPrefix_prefixed: "removeAppiumPrefix (''appium:'' @ k) = k"
  by (simp add: removeAppiumPrefix_def W3C_APPIUM_PREFIX_def startsWith_def)

section \<open>Round trip of the prefix codec\<close>

lemma prefix_round_trip_ordinary:
  assumes "CHR '':'' \<notin> set k" and "k \<notin> set STANDARD_CAPS" and "k \<noteq> ''__proto__''"
  shows "insertAppiumPrefixes rt (JObj [(k, v)]) = Inr (JObj [(''appium:'' @ k, v)])
       \<and> removeAppiumPrefixes rt (JObj [(''appium:'' @ k, v)]) = Inr (JObj [(k, v)])"
proof -
  have "insertAppiumPrefixes rt (JObj [(k, v)]) = Inr (JObj [(''appium:'' @ k, v)])"
    using assms(1,2)
    by (simp add: insertAppiumPrefixes_def prefixed_name_def W3C_APPIUM_PREFIX_def)
  moreover have "removeAppiumPrefixes rt (JObj [(''appium:'' @ k, v)]) = Inr (JObj [(k, v)])"
    using assms(3)
    by (simp add: removeAppiumPrefixes_def removeAppiumPrefix_prefixed del: append.simps)
  ultimately show ?thesis by simp
qed

text \<open>
  Claim C5. For a capability name without colon that is no standard name,
  \<open>insertAppiumPrefixes {k: v}\<close> is \<open>{appium:k: v}\<close>, and \<open>removeAppiumPrefixes\<close> gives \<open>{k: v}\<close>
  back for every such name but one (\<open>prefix_round_trip_ordinary\<close>): for the name
  \<^verbatim>\<open>__proto__\<close> the assignment \<^verbatim>\<open>fixedCaps[removeAppiumPrefix(name)] = value\<close> creates
  no own property, and \<open>removeAppiumPrefixes {appium:__proto__: 1}\<close> is the empty
  dictionary instead of \<open>{__proto__: 1}\<close>.
\<close>

theorem prefix_round_trip_loses_proto:
  "CHR '':'' \<notin> set ''__proto__'' \<and> ''__proto__'' \<notin> set STANDARD_CAPS
   \<and> insertAppiumPrefixes rt (JObj [(''__proto__'', JNum 1)])
       = Inr (JObj [(''appium:__proto__'', JNum 1)])
   \<and> removeAppiumPrefixes rt (JObj [(''appium:__proto__'', JNum 1)]) = Inr (JObj [])"
  by (simp add: insertAppiumPrefixes_def removeAppiumPrefixes_def prefixed_name_def
        removeAppiumPrefix_def startsWith_def W3C_APPIUM_PREFIX_def STANDARD_CAPS_def)

section \<open>Known arguments\<close>

lemma set_prop_obj:
  "k \<noteq> ''__proto__'' \<Longrightarrow> set_prop rt (JObj d) k v = Inr (JObj (obj_define k v d))"
  by (simp add: obj_define_def)

lemma reduce_all_known:
  assumes "set (map fst ps) \<subseteq> set known" and "''__proto__'' \<notin> fst ` set ps"
    and "distinct (map fst (acc @ ps))" and "key_ordered (map fst (acc @ ps))"
  shows "parseKnownArgs_reduce rt known (JObj acc) ps = Inr (JObj (acc @ ps))"
  using assms
proof (induction ps arbitrary: acc)
  case Nil
  then show ?case by simp
next
  case (Cons p ps)
  have np: "fst p \<noteq> ''__proto__''" using Cons.prems(2) by auto
  have step: "obj_define (fst p) (snd p) acc = acc @ [p]"
    using Cons.prems(3,4) by (rule define_next)
  have "parseKnownArgs_reduce rt known (JObj (acc @ [p])) ps = Inr (JObj ((acc @ [p]) @ ps))"
    using Cons.IH [of "acc @ [p]"] Cons.prems by simp
  with Cons.prems(1) np step show ?case by (simp add: set_prop_obj del: set_prop.simps)
qed

lemma reduce_unknown:
  "ps = pre @ (k, v) # rest \<Longrightarrow> set (map fst pre) \<subseteq> set known
   \<Longrightarrow> ''__proto__'' \<notin> fst ` set pre \<Longrightarrow> k \<notin> set known
   \<Longrightarrow> parseKnownArgs_reduce rt known (JObj acc) ps = Inl (NotRecognizedKey k known)"
proof (induction pre arbitrary: acc ps)
  case Nil
  then show ?case by simp
next
  case (Cons p pre)
  have np: "fst p \<noteq> ''__proto__''" using Cons.prems(3) by auto
  have "parseKnownArgs_reduce rt known (JObj (obj_define (fst p) (snd p) acc))
          (pre @ (k, v) # rest) = Inl (NotRecognizedKey k known)"
    using Cons.IH [of "pre @ (k, v) # rest"] Cons.prems by simp
  with Cons.prems np show ?case by (simp add: set_prop_obj del: set_prop.simps)
qed

lemma first_unknown:
  "\<exists>k\<in>set (map fst ps). k \<notin> K \<Longrightarrow>
   \<exists>pre k v rest. ps = pre @ (k, v) # rest \<and> set (map fst pre) \<subseteq> K \<and> k \<notin> K"
proof (induction ps)
  case Nil
  then show ?case by simp
next
  case (Cons p ps)
  show ?case
  proof (cases "fst p \<in> K")
    case False
    then have "p # ps = [] @ (fst p, snd p) # ps \<and> set (map fst []) \<subseteq> K \<and> fst p \<notin> K" by simp
    then show ?thesis by blast
  next
    case True
    with Cons.prems have "\<exists>k\<in>set (map fst ps). k \<notin> K" by auto
    from Cons.IH [OF this] obtain pre k v rest
      where "ps = pre @ (k, v) # rest" "set (map fst pre) \<subseteq> K" "k \<notin> K" by blast
    with True have "p # ps = (p # pre) @ (k, v) # rest \<and> set (map fst (p # pre)) \<subseteq> K \<and> k \<notin> K"
      by simp
    then show ?thesis by blast
  qed
qed

lemma parseKnownArgs_ordinary:
  assumes "''__proto__'' \<notin> fst ` set suppliedArgs"
  shows "((\<exists>k \<in> fst ` set suppliedArgs. k \<notin> fst ` set constraints) \<longrightarrow>
      (\<exists>k. k \<in> fst ` set suppliedArgs \<and> k \<notin> fst ` set constraints
         \<and> parseKnownArgs rt suppliedArgs constraints
             = Inl (NotRecognizedKey k (map fst constraints))))
   \<and> (wf_obj suppliedArgs \<and> (\<forall>k \<in> fst ` set suppliedArgs. k \<in> fst ` set constraints) \<longrightarrow>
      parseKnownArgs rt suppliedArgs constraints = Inr (JObj suppliedArgs))"
proof (intro conjI impI)
  assume "\<exists>k \<in> fst ` set suppliedArgs. k \<notin> fst ` set constraints"
  then have "\<exists>k\<in>set (map fst suppliedArgs). k \<notin> set (map fst constraints)" by simp
  from first_unknown [OF this] obtain pre k v rest
    where d: "suppliedArgs = pre @ (k, v) # rest"
      "set (map fst pre) \<subseteq> set (map fst constraints)" "k \<notin> set (map fst constraints)"
    by blast
  have np: "''__proto__'' \<notin> fst ` set pre" using assms d(1) by auto
  have "parseKnownArgs rt suppliedArgs constraints = Inl (NotRecognizedKey k (map fst constraints))"
    unfolding parseKnownArgs_def Let_def using reduce_unknown [OF d(1,2) np d(3)] .
  moreover have "k \<in> fst ` set suppliedArgs" using d(1) by force
  ultimately show "\<exists>k. k \<in> fst ` set suppliedArgs \<and> k \<notin> fst ` set constraints
         \<and> parseKnownArgs rt suppliedArgs constraints
             = Inl (NotRecognizedKey k (map fst constraints))"
    using d(3) by auto
next
  assume a: "wf_obj suppliedArgs \<and> (\<forall>k \<in> fst ` set suppliedArgs. k \<in> fst ` set constraints)"
  then have "set (map fst suppliedArgs) \<subseteq> set (map fst constraints)" by auto
  with a assms show "parseKnownArgs rt suppliedArgs constraints = Inr (JObj suppliedArgs)"
    unfolding parseKnownArgs_def Let_def wf_obj_def
    using reduce_all_known [of suppliedArgs "map fst constraints" "[]" rt] by simp
qed

text \<open>
  Claim C6. \<open>parseKnownArgs\<close> fails with the unrecognised-key error at the first supplied
  key that is not a key of the constraints, and returns the supplied arguments unchanged
  when all keys are known and none is named \<^verbatim>\<open>__proto__\<close> (\<open>parseKnownArgs_ordinary\<close>). A
  known key \<^verbatim>\<open>__proto__\<close> is dropped without an error: \<^verbatim>\<open>args[argName] = argValue\<close>
  creates no own property for it, so \<open>{__proto__: 1, a: 1}\<close> comes back as \<open>{a: 1}\<close>.
\<close>

theorem parseKnownArgs_drops_proto:
  "parseKnownArgs rt [(''__proto__'', JNum 1), (''a'', JNum 1)]
      [(''__proto__'', JObj []), (''a'', JObj [])] = Inr (JObj [(''a'', JNum 1)])"
  by (simp add: parseKnownArgs_def)

section \<open>Extension arguments\<close>

text \<open>
  Claim C3, as the code has it. When the blob parses to a mapping, \<open>parseExtensionArgs\<close>
  returns the entry of the extension when that entry is a plain dictionary, and fails with
  the invalid-shape error whenever the entry is not a plain dictionary, also when the
  mapping has no entry for the extension (the name of the extension not being one that
  every object inherits from \<^verbatim>\<open>Object.prototype\<close>).
\<close>

theorem parseExtensionArgs_entry:
  assumes "parseJsonStringOrFile (JStr blob) = Inr (JObj parsed)"
  shows "(\<forall>v. map_of parsed extensionName = Some v \<and> isPlainObject rt v \<longrightarrow>
            parseExtensionArgs rt parseJsonStringOrFile (JStr blob) extensionName = Inr v)
       \<and> (\<forall>v. map_of parsed extensionName = Some v \<and> \<not> isPlainObject rt v \<longrightarrow>
            parseExtensionArgs rt parseJsonStringOrFile (JStr blob) extensionName
              = Inl (Error ''Driver or plugin arguments must be plain objects''))
       \<and> (extensionName \<notin> fst ` set parsed \<and> proto_get rt extensionName = None \<longrightarrow>
            parseExtensionArgs rt parseJsonStringOrFile (JStr blob) extensionName
              = Inl (Error ''Driver or plugin arguments must be plain objects''))"
proof -
  have none: "extensionName \<notin> fst ` set parsed \<Longrightarrow> map_of parsed extensionName = None"
    by (simp add: map_of_eq_None_iff)
  show ?thesis
    using assms none
    by (auto simp: parseExtensionArgs_def split: option.splits)
qed

theorem parseExtensionArgs_entry_witness:
  "parseExtensionArgs example_runtime
      (\<lambda>blob. Inr (JObj [(''fake'', JObj [(''port'', JNum 1)]), (''other'', JNum 2)]))
      (JStr ''blob'') ''fake'' = Inr (JObj [(''port'', JNum 1)])
   \<and> parseExtensionArgs example_runtime
      (\<lambda>blob. Inr (JObj [(''fake'', JObj [(''port'', JNum 1)]), (''other'', JNum 2)]))
      (JStr ''blob'') ''other'' = Inl (Error ''Driver or plugin arguments must be plain objects'')
   \<and> parseExtensionArgs example_runtime
      (\<lambda>blob. Inr (JObj [(''fake'', JObj [(''port'', JNum 1)]), (''other'', JNum 2)]))
      (JStr ''blob'') ''absent'' = Inl (Error ''Driver or plugin arguments must be plain objects'')"
  using parseExtensionArgs_entry
      [of "\<lambda>blob. Inr (JObj [(''fake'', JObj [(''port'', JNum 1)]), (''other'', JNum 2)])" "''blob''"
          "[(''fake'', JObj [(''port'', JNum 1)]), (''other'', JNum 2)]" "''fake''"
          example_runtime]
    parseExtensionArgs_entry
      [of "\<lambda>blob. Inr (JObj [(''fake'', JObj [(''port'', JNum 1)]), (''other'', JNum 2)])" "''blob''"
          "[(''fake'', JObj [(''port'', JNum 1)]), (''other'', JNum 2)]" "''other''"
          example_runtime]
    parseExtensionArgs_entry
      [of "\<lambda>blob. Inr (JObj [(''fake'', JObj [(''port'', JNum 1)]), (''other'', JNum 2)])" "''blob''"
          "[(''fake'', JObj [(''port'', JNum 1)]), (''other'', JNum 2)]" "''absent''"
          example_runtime]
  by (simp add: example_runtime_def)

theorem parseExtensionArgs_missing_entry_counterexample:
  "parseExtensionArgs example_runtime (\<lambda>blob. Inr (JObj [])) (JStr ''{}'') ''fake''
     = Inl (Error ''Driver or plugin arguments must be plain objects'')
   \<and> parseExtensionArgs example_runtime (\<lambda>blob. Inr (JObj [])) (JStr ''{}'') ''fake'' \<noteq> Inr (JObj [])"
  by (simp add: parseExtensionArgs_def example_runtime_def)

section \<open>Settings directives\<close>

lemma startsWith_append: "startsWith s p \<Longrightarrow> s = p @ drop (length p) s"
  unfolding startsWith_def by (metis append_take_drop_id)

lemma settings_here_Some:
  assumes "settings_here s = Some name"
  shows "s = ''settings['' @ name @ '']'' \<and> name \<noteq> [] \<and> (\<forall>c\<in>set name. \<not> is_whitespace c)"
proof -
  define rest where "rest = drop (length ''settings['') s"
  from assms have sw: "startsWith s ''settings[''"
    by (simp add: settings_here_def split: if_splits)
  from assms sw have r: "2 \<le> length rest" "last rest = CHR '']''"
    "list_all (\<lambda>c. \<not> is_whitespace c) (butlast rest)" "name = butlast rest"
    unfolding rest_def by (auto simp: settings_here_def Let_def split: if_splits)
  from r(1) have ne: "rest \<noteq> []" by auto
  have "butlast rest @ [last rest] = rest" using ne by (rule append_butlast_last_id)
  with r have rest: "rest = name @ '']''" by simp
  have "s = ''settings['' @ rest" unfolding rest_def using startsWith_append [OF sw] .
  with rest have "s = ''settings['' @ name @ '']''" by simp
  moreover have "name \<noteq> []" using r(1,4) by (cases rest rule: rev_cases) auto
  moreover have "\<forall>c\<in>set name. \<not> is_whitespace c" using r(3,4) by (simp add: list_all_iff)
  ultimately show ?thesis by blast
qed

lemma settings_here_match:
  assumes "name \<noteq> []" and "\<forall>c\<in>set name. \<not> is_whitespace c"
  shows "settings_here (''settings['' @ name @ '']'') = Some name"
  using assms by (cases name) (auto simp: settings_here_def startsWith_def list_all_iff)

lemma is_word_char_s: "is_word_char CHR ''s''"
  by (simp add: is_word_char_def)

lemma scan_sound:
  "settings_scan prev s = Some name \<Longrightarrow>
   \<exists>pre. s = pre @ ''settings['' @ name @ '']'' \<and> name \<noteq> [] \<and> (\<forall>c\<in>set name. \<not> is_whitespace c)
     \<and> (if pre = [] then word_boundary prev (Some CHR ''s'') else \<not> is_word_char (last pre))
     \<and> (\<forall>pre' n'. s = pre' @ ''settings['' @ n' @ '']'' \<and> n' \<noteq> []
            \<and> (\<forall>c\<in>set n'. \<not> is_whitespace c)
            \<and> (if pre' = [] then word_boundary prev (Some CHR ''s'')
                else \<not> is_word_char (last pre'))
          \<longrightarrow> length pre \<le> length pre')"
proof (induction s arbitrary: prev)
  case Nil
  then show ?case by simp
next
  case (Cons c cs)
  show ?case
  proof (cases "word_boundary prev (Some c) \<and> settings_here (c # cs) \<noteq> None")
    case True
    then obtain n where n: "settings_here (c # cs) = Some n" by auto
    with True Cons.prems have "n = name" by simp
    with n have h: "settings_here (c # cs) = Some name" by simp
    from settings_here_Some [OF h] have
      s: "c # cs = ''settings['' @ name @ '']''" and rest: "name \<noteq> []" "\<forall>c\<in>set name. \<not> is_whitespace c"
      by blast+
    from s have "c = CHR ''s''" by simp
    with True have b: "word_boundary prev (Some CHR ''s'')" by simp
    show ?thesis
    proof (intro exI [of _ "[]"] conjI)
      show "c # cs = [] @ ''settings['' @ name @ '']''" using s by simp
      show "name \<noteq> []" by fact
      show "\<forall>c\<in>set name. \<not> is_whitespace c" by fact
      show "if ([]::string) = [] then word_boundary prev (Some CHR ''s'')
            else \<not> is_word_char (last [])" using b by simp
      show "\<forall>pre' n'. c # cs = pre' @ ''settings['' @ n' @ '']'' \<and> n' \<noteq> []
            \<and> (\<forall>c\<in>set n'. \<not> is_whitespace c)
            \<and> (if pre' = [] then word_boundary prev (Some CHR ''s'')
                else \<not> is_word_char (last pre'))
          \<longrightarrow> length ([]::string) \<le> length pre'" by simp
    qed
  next
    case False
    with Cons.prems have "settings_scan (Some c) cs = Some name"
      by (auto split: option.splits if_splits)
    from Cons.IH [OF this] obtain pre where
      p: "cs = pre @ ''settings['' @ name @ '']''" "name \<noteq> []" "\<forall>c\<in>set name. \<not> is_whitespace c"
         "if pre = [] then word_boundary (Some c) (Some CHR ''s'') else \<not> is_word_char (last pre)"
      and least: "\<And>pre' n'. cs = pre' @ ''settings['' @ n' @ '']'' \<Longrightarrow> n' \<noteq> []
            \<Longrightarrow> \<forall>c\<in>set n'. \<not> is_whitespace c
            \<Longrightarrow> (if pre' = [] then word_boundary (Some c) (Some CHR ''s'')
                 else \<not> is_word_char (last pre'))
            \<Longrightarrow> length pre \<le> length pre'"
      by blast
    have lastc: "\<not> is_word_char (last (c # pre))"
      using p(4) by (auto simp: word_boundary_def is_word_char_s split: if_splits)
    have min: "length (c # pre) \<le> length pre'"
      if q: "c # cs = pre' @ ''settings['' @ n' @ '']''" "n' \<noteq> []"
        "\<forall>c\<in>set n'. \<not> is_whitespace c"
        "if pre' = [] then word_boundary prev (Some CHR ''s'') else \<not> is_word_char (last pre')"
      for pre' n'
    proof (cases pre')
      case Nil
      with q have "c # cs = ''settings['' @ n' @ '']''" and b: "word_boundary prev (Some CHR ''s'')"
        by simp_all
      then have "settings_here (c # cs) = Some n'" and "c = CHR ''s''"
        using settings_here_match [OF q(2,3)] by simp_all
      with b False show ?thesis by simp
    next
      case (Cons c' pre'')
      with q(1) have c: "c' = c" and cs: "cs = pre'' @ ''settings['' @ n' @ '']''" by simp_all
      have "if pre'' = [] then word_boundary (Some c) (Some CHR ''s'')
            else \<not> is_word_char (last pre'')"
        using q(4) Cons c by (auto simp: word_boundary_def is_word_char_s)
      from least [OF cs q(2,3) this] Cons show ?thesis by simp
    qed
    show ?thesis
    proof (intro exI [of _ "c # pre"] conjI)
      show "c # cs = (c # pre) @ ''settings['' @ name @ '']''" using p(1) by simp
      show "name \<noteq> []" by fact
      show "\<forall>c\<in>set name. \<not> is_whitespace c" by fact
      show "if c # pre = [] then word_boundary prev (Some CHR ''s'')
            else \<not> is_word_char (last (c # pre))" using lastc by simp
      show "\<forall>pre' n'. c # cs = pre' @ ''settings['' @ n' @ '']'' \<and> n' \<noteq> []
            \<and> (\<forall>c\<in>set n'. \<not> is_whitespace c)
            \<and> (if pre' = [] then word_boundary prev (Some CHR ''s'')
                else \<not> is_word_char (last pre'))
          \<longrightarrow> length (c # pre) \<le> length pre'" using min by blast
    qed
  qed
qed

lemma scan_complete:
  assumes "name \<noteq> []" and "\<forall>c\<in>set name. \<not> is_whitespace c"
    and "if pre = [] then word_boundary prev (Some CHR ''s'') else \<not> is_word_char (last pre)"
  shows "settings_scan prev (pre @ ''settings['' @ name @ '']'') \<noteq> None"
  using assms(3)
proof (induction pre arbitrary: prev)
  case Nil
  then show ?case using settings_here_match [OF assms(1,2)] by simp
next
  case (Cons c pre)
  have "if pre = [] then word_boundary (Some c) (Some CHR ''s'') else \<not> is_word_char (last pre)"
    using Cons.prems by (auto simp: word_boundary_def is_word_char_s)
  from Cons.IH [OF this] show ?case by (auto split: option.splits)
qed

lemma settings_match_sound:
  assumes "settings_match key = Some name"
  shows "\<exists>pre. key = pre @ ''settings['' @ name @ '']'' \<and> name \<noteq> []
     \<and> (\<forall>c\<in>set name. \<not> is_whitespace c) \<and> (pre = [] \<or> \<not> is_word_char (last pre))
     \<and> (\<forall>pre' n'. key = pre' @ ''settings['' @ n' @ '']'' \<and> n' \<noteq> []
            \<and> (\<forall>c\<in>set n'. \<not> is_whitespace c) \<and> (pre' = [] \<or> \<not> is_word_char (last pre'))
          \<longrightarrow> length pre \<le> length pre')"
proof -
  have b: "word_boundary None (Some CHR ''s'')"
    by (simp add: word_boundary_def is_word_char_s)
  from assms have "settings_scan None key = Some name" by (simp add: settings_match_def)
  from scan_sound [OF this] obtain pre where
    p: "key = pre @ ''settings['' @ name @ '']''" "name \<noteq> []" "\<forall>c\<in>set name. \<not> is_whitespace c"
       "if pre = [] then word_boundary None (Some CHR ''s'') else \<not> is_word_char (last pre)"
    and least: "\<And>pre' n'. key = pre' @ ''settings['' @ n' @ '']'' \<Longrightarrow> n' \<noteq> []
            \<Longrightarrow> \<forall>c\<in>set n'. \<not> is_whitespace c
            \<Longrightarrow> (if pre' = [] then word_boundary None (Some CHR ''s'')
                 else \<not> is_word_char (last pre'))
            \<Longrightarrow> length pre \<le> length pre'"
    by blast
  have l: "length pre \<le> length pre'"
    if "key = pre' @ ''settings['' @ n' @ '']''" "n' \<noteq> []" "\<forall>c\<in>set n'. \<not> is_whitespace c"
      "pre' = [] \<or> \<not> is_word_char (last pre')" for pre' n'
    using least [OF that(1,2,3)] that(4) b by auto
  have "pre = [] \<or> \<not> is_word_char (last pre)" using p(4) by (auto split: if_splits)
  with p l show ?thesis by blast
qed

lemma settings_match_complete:
  "name \<noteq> [] \<Longrightarrow> \<forall>c\<in>set name. \<not> is_whitespace c \<Longrightarrow> pre = [] \<or> \<not> is_word_char (last pre)
   \<Longrightarrow> settings_match (pre @ ''settings['' @ name @ '']'') \<noteq> None"
  unfolding settings_match_def
  by (rule scan_complete) (auto simp: word_boundary_def is_word_char_s)

lemma map_of_define_all:
  "map_of (foldl (\<lambda>t p. obj_define (fst p) (snd p) t) target source)
     = map_of target ++ map_of (rev source)"
proof (induction source arbitrary: target)
  case Nil
  then show ?case by simp
next
  case (Cons p ps)
  have "map_of (foldl (\<lambda>t p. obj_define (fst p) (snd p) t) (obj_define (fst p) (snd p) target) ps)
        = map_of (obj_define (fst p) (snd p) target) ++ map_of (rev ps)"
    using Cons.IH .
  also have "\<dots> = map_of target ++ map_of (rev (p # ps))"
    by (cases p) (simp add: map_of_obj_define map_add_def fun_eq_iff split: option.splits)
  finally show ?case by simp
qed

lemma pullSettings_loop_ordinary:
  assumes "\<forall>p\<in>set ps. settings_match (fst p) \<noteq> Some ''__proto__''"
  shows "pullSettings_loop rt ps (JObj r) (JObj c)
     = (Inr (JObj (foldl (\<lambda>t p. obj_define (fst p) (snd p) t) r
                    (List.map_filter
                       (\<lambda>p. map_option (\<lambda>name. (name, snd p)) (settings_match (fst p))) ps))),
        JObj (filter (\<lambda>q. \<not> (fst q \<in> fst ` set ps \<and> settings_match (fst q) \<noteq> None)) c))"
  using assms
proof (induction ps arbitrary: r c)
  case Nil
  then show ?case by (simp add: List.map_filter_simps)
next
  case (Cons p ps)
  have rest: "\<forall>p\<in>set ps. settings_match (fst p) \<noteq> Some ''__proto__''"
    using Cons.prems by simp
  show ?case
  proof (cases "settings_match (fst p)")
    case None
    have "filter (\<lambda>q. \<not> (fst q \<in> fst ` set ps \<and> settings_match (fst q) \<noteq> None)) c
        = filter (\<lambda>q. \<not> (fst q \<in> fst ` set (p # ps) \<and> settings_match (fst q) \<noteq> None)) c"
      using None by (intro filter_cong) auto
    with None Cons.IH [OF rest] show ?thesis by (simp add: List.map_filter_simps)
  next
    case (Some name)
    have np: "name \<noteq> ''__proto__''" using Cons.prems Some by auto
    have "filter (\<lambda>q. \<not> (fst q \<in> fst ` set ps \<and> settings_match (fst q) \<noteq> None))
            (obj_delete (fst p) c)
        = filter (\<lambda>q. \<not> (fst q \<in> fst ` set (p # ps) \<and> settings_match (fst q) \<noteq> None)) c"
      unfolding obj_delete_def filter_filter using Some by (intro filter_cong) auto
    with Some np Cons.IH [OF rest, of "obj_define name (snd p) r" "obj_delete (fst p) c"]
    show ?thesis by (simp add: List.map_filter_simps set_prop_obj del: set_prop.simps)
  qed
qed

text \<open>
  Claim C7, as the code has it. For every non-empty dictionary in which no key yields the
  setting name \<^verbatim>\<open>__proto__\<close>, \<open>pullSettings\<close> moves the value of each key that the
  pattern matches into the result and deletes that key from the dictionary; the keys that
  the pattern does not match stay, with their values and in their order. The pattern
  matches a key exactly where \<open>settings[<name>]\<close>, with a non-empty \<open><name>\<close> free of
  whitespace, runs to the end of the key and starts at a word boundary (the start of the
  key, or after a character that is no letter, digit or underscore); among such starts
  the leftmost decides \<open><name>\<close>. The result maps each name to the value of the last key that
  gives it, and is exactly the list of moved pairs when that list is the content of an
  object.
\<close>

theorem pullSettings_moves_matches:
  assumes "d \<noteq> []" and "\<forall>p\<in>set d. settings_match (fst p) \<noteq> Some ''__proto__''"
  shows "(\<exists>result. pullSettings rt (JObj d)
            = (Inr (JObj result), JObj (filter (\<lambda>p. settings_match (fst p) = None) d))
          \<and> map_of result
              = map_of (rev (List.map_filter
                  (\<lambda>p. map_option (\<lambda>name. (name, snd p)) (settings_match (fst p))) d))
          \<and> (wf_obj (List.map_filter
                  (\<lambda>p. map_option (\<lambda>name. (name, snd p)) (settings_match (fst p))) d) \<longrightarrow>
               result = List.map_filter
                  (\<lambda>p. map_option (\<lambda>name. (name, snd p)) (settings_match (fst p))) d))
     \<and> (\<forall>key name. settings_match key = Some name \<longrightarrow>
          (\<exists>pre. key = pre @ ''settings['' @ name @ '']'' \<and> name \<noteq> []
             \<and> (\<forall>c\<in>set name. \<not> is_whitespace c) \<and> (pre = [] \<or> \<not> is_word_char (last pre))
             \<and> (\<forall>pre' n'. key = pre' @ ''settings['' @ n' @ '']'' \<and> n' \<noteq> []
                    \<and> (\<forall>c\<in>set n'. \<not> is_whitespace c)
                    \<and> (pre' = [] \<or> \<not> is_word_char (last pre'))
                  \<longrightarrow> length pre \<le> length pre')))
     \<and> (\<forall>pre name. name \<noteq> [] \<and> (\<forall>c\<in>set name. \<not> is_whitespace c)
             \<and> (pre = [] \<or> \<not> is_word_char (last pre)) \<longrightarrow>
          settings_match (pre @ ''settings['' @ name @ '']'') \<noteq> None)"
proof -
  let ?M = "List.map_filter (\<lambda>p. map_option (\<lambda>name. (name, snd p)) (settings_match (fst p))) d"
  let ?R = "foldl (\<lambda>t p. obj_define (fst p) (snd p) t) [] ?M"
  have f: "filter (\<lambda>q. \<not> (fst q \<in> fst ` set d \<and> settings_match (fst q) \<noteq> None)) d
        = filter (\<lambda>p. settings_match (fst p) = None) d"
    by (intro filter_cong) auto
  have run: "pullSettings rt (JObj d)
      = (Inr (JObj ?R), JObj (filter (\<lambda>p. settings_match (fst p) = None) d))"
    using assms(1) pullSettings_loop_ordinary [OF assms(2), of rt "[]" d] f
    by (simp add: pullSettings_def)
  have m: "map_of ?R = map_of (rev ?M)" by (simp add: map_of_define_all)
  have e: "wf_obj ?M \<longrightarrow> ?R = ?M"
    unfolding wf_obj_def using define_all_wf [of "[]" ?M] by simp
  have one: "\<exists>result. pullSettings rt (JObj d)
            = (Inr (JObj result), JObj (filter (\<lambda>p. settings_match (fst p) = None) d))
          \<and> map_of result = map_of (rev ?M) \<and> (wf_obj ?M \<longrightarrow> result = ?M)"
    using run m e by blast
  have two: "\<forall>key name. settings_match key = Some name \<longrightarrow>
          (\<exists>pre. key = pre @ ''settings['' @ name @ '']'' \<and> name \<noteq> []
             \<and> (\<forall>c\<in>set name. \<not> is_whitespace c) \<and> (pre = [] \<or> \<not> is_word_char (last pre))
             \<and> (\<forall>pre' n'. key = pre' @ ''settings['' @ n' @ '']'' \<and> n' \<noteq> []
                    \<and> (\<forall>c\<in>set n'. \<not> is_whitespace c)
                    \<and> (pre' = [] \<or> \<not> is_word_char (last pre'))
                  \<longrightarrow> length pre \<le> length pre'))"
    using settings_match_sound by blast
  have three: "\<forall>pre name. name \<noteq> [] \<and> (\<forall>c\<in>set name. \<not> is_whitespace c)
             \<and> (pre = [] \<or> \<not> is_word_char (last pre)) \<longrightarrow>
          settings_match (pre @ ''settings['' @ name @ '']'') \<noteq> None"
    using settings_match_complete by blast
  from one two three show ?thesis by (intro conjI)
qed

lemma settings_match_timeout: "settings_match ''settings[timeout]'' = Some ''timeout''"
  by code_simp

lemma settings_match_a: "settings_match ''a'' = None"
  by code_simp

theorem pullSettings_moves_matches_witness:
  "pullSettings example_runtime (JObj [(''a'', JNum 1), (''settings[timeout]'', JNum 30)])
     = (Inr (JObj [(''timeout'', JNum 30)]), JObj [(''a'', JNum 1)])"
proof -
  let ?d = "[(''a'', JNum 1), (''settings[timeout]'', JNum 30)] :: string obj"
  have ne: "?d \<noteq> []" by simp
  have np: "\<forall>p\<in>set ?d. settings_match (fst p) \<noteq> Some ''__proto__''"
    by (simp add: settings_match_timeout settings_match_a)
  have w: "wf_obj [(''timeout'', JNum 30 :: string json)]" by (simp add: wf_obj_def)
  from pullSettings_moves_matches [OF ne np, of example_runtime] w
  show ?thesis
    by (auto simp: settings_match_timeout settings_match_a List.map_filter_simps)
qed

theorem pullSettings_word_boundary_counterexample:
  "''mysettings[a]'' = ''my'' @ ''settings['' @ ''a'' @ '']'' \<and> \<not> is_whitespace CHR ''a''
   \<and> pullSettings example_runtime (JObj [(''mysettings[a]'', JNum 1)])
       = (Inr (JObj []), JObj [(''mysettings[a]'', JNum 1)])"
  by code_simp

section \<open>Objects built by assignment\<close>

lemma map_fst_obj_replace: "map fst (obj_replace k v d) = map fst d"
  by (induction d) auto

lemma goes_before_trans:
  "goes_before k p \<Longrightarrow> \<not> goes_before y p \<Longrightarrow> \<not> goes_before y k"
  by (auto simp: goes_before_def split: option.splits)

lemma goes_before_asym: "goes_before k p \<Longrightarrow> \<not> goes_before p k"
  by (auto simp: goes_before_def split: option.splits)

lemma key_ordered_obj_add:
  "key_ordered (map fst d) \<Longrightarrow> key_ordered (map fst (obj_add k v d))"
proof (induction d)
  case Nil
  then show ?case by simp
next
  case (Cons p ps)
  show ?case
  proof (cases "goes_before k (fst p)")
    case True
    have "\<forall>y\<in>set (map fst ps). \<not> goes_before y (fst p)"
      using Cons.prems by (simp add: list_all_iff)
    then have "\<forall>y\<in>set (map fst ps). \<not> goes_before y k"
      using goes_before_trans [OF True] by blast
    with True Cons.prems goes_before_asym [OF True] show ?thesis
      by (simp add: list_all_iff)
  next
    case False
    have "set (map fst (obj_add k v ps)) = insert k (set (map fst ps))"
      using keys_obj_add [of k v ps] by simp
    with False Cons show ?thesis by (simp add: list_all_iff)
  qed
qed

lemma distinct_obj_add:
  "distinct (map fst d) \<Longrightarrow> k \<notin> fst ` set d \<Longrightarrow> distinct (map fst (obj_add k v d))"
proof (induction d)
  case Nil
  then show ?case by simp
next
  case (Cons p ps)
  have "set (map fst (obj_add k v ps)) = insert k (set (map fst ps))"
    using keys_obj_add [of k v ps] by simp
  with Cons show ?case by auto
qed

lemma wf_obj_define: "wf_obj d \<Longrightarrow> wf_obj (obj_define k v d)"
  by (simp add: wf_obj_def obj_define_def map_fst_obj_replace key_ordered_obj_add
        distinct_obj_add)

lemma wf_define_all:
  "wf_obj acc \<Longrightarrow> wf_obj (foldl (\<lambda>t p. obj_define (fst p) (snd p) t) acc ps)"
  by (induction ps arbitrary: acc) (simp_all add: wf_obj_define)

lemma assign_pairs_ordinary:
  "''__proto__'' \<notin> fst ` set ps \<Longrightarrow>
   assign_pairs rt (JObj acc) ps = Inr (JObj (foldl (\<lambda>t p. obj_define (fst p) (snd p) t) acc ps))"
proof (induction ps arbitrary: acc)
  case Nil
  then show ?case by simp
next
  case (Cons p ps)
  have "fst p \<noteq> ''__proto__''" using Cons.prems by auto
  with Cons show ?case by (simp add: set_prop_obj del: set_prop.simps)
qed

lemma prefixed_name_not_proto: "prefixed_name name \<noteq> ''__proto__''"
  by (cases name) (auto simp: prefixed_name_def STANDARD_CAPS_def W3C_APPIUM_PREFIX_def)

lemma insertAppiumPrefixes_total:
  "\<exists>prefixed. insertAppiumPrefixes rt caps = Inr (JObj prefixed) \<and> wf_obj prefixed
     \<and> spread rt (JObj prefixed) = prefixed"
proof -
  let ?ps = "map (\<lambda>p. (prefixed_name (fst p), snd p)) (toPairs rt caps)"
  let ?r = "foldl (\<lambda>t p. obj_define (fst p) (snd p) t) [] ?ps"
  have "''__proto__'' \<notin> fst ` set ?ps"
    using prefixed_name_not_proto by (auto simp: image_iff) metis
  then have "insertAppiumPrefixes rt caps = Inr (JObj ?r)"
    unfolding insertAppiumPrefixes_def by (rule assign_pairs_ordinary)
  moreover have "wf_obj ?r" by (rule wf_define_all) (simp add: wf_obj_def)
  ultimately show ?thesis using spread_wf by blast
qed

section \<open>Return paths of the negotiation\<close>

lemma parseCaps_returns:
  assumes "fst (parseCapsForInnerDriver rt P pc h j w c d) = Inr r"
  shows "(\<not> (isPlainObject rt (h ! w) \<and> (has rt (h ! w) ''alwaysMatch'' \<or> has rt (h ! w) ''firstMatch''))
          \<and> snd (parseCapsForInnerDriver rt P pc h j w c d) = h
          \<and> r = \<lparr>desiredCaps = None, processedJsonwpCapabilities = None,
                  processedW3CCapabilities = None, protocol = P,
                  error = Some (Error ''W3C capabilities should be provided'')\<rparr>)
       \<or> ((isPlainObject rt (h ! w) \<and> (has rt (h ! w) ''alwaysMatch'' \<or> has rt (h ! w) ''firstMatch''))
          \<and> (\<exists>jsonwp2 h4.
                mergeDefaultCapabilities rt True (isPlainObject rt (h ! j))
                    (snd (cloneDeep rt d (snd (cloneDeep rt w (snd (cloneDeep rt j h))))))
                    (length h) (Suc (length h)) (Suc (Suc (length h))) = (Inr jsonwp2, h4)
              \<and> snd (parseCapsForInnerDriver rt P pc h j w c d) = h4
              \<and> ((\<exists>err. pc (h4 ! Suc (length h)) c True = Inl err
                     \<and> r = \<lparr>desiredCaps = Some (JObj []),
                             processedJsonwpCapabilities =
                               Some (if isPlainObject rt (h ! j)
                                     then JObj (spread rt (h4 ! jsonwp2)) else JNull),
                             processedW3CCapabilities = Some JNull, protocol = P,
                             error = Some err\<rparr>)
                 \<or> (\<exists>matched prefixed. pc (h4 ! Suc (length h)) c True = Inr matched
                     \<and> insertAppiumPrefixes rt matched = Inr prefixed
                     \<and> r = \<lparr>desiredCaps = Some matched,
                             processedJsonwpCapabilities =
                               Some (if isPlainObject rt (h ! j)
                                     then JObj (spread rt (h4 ! jsonwp2)) else JNull),
                             processedW3CCapabilities =
                               Some (JObj [(''alwaysMatch'', JObj (spread rt prefixed)),
                                           (''firstMatch'', JArr [JObj []])]),
                             protocol = P, error = None\<rparr>))))"
proof (cases "isPlainObject rt (h ! w) \<and> (has rt (h ! w) ''alwaysMatch'' \<or> has rt (h ! w) ''firstMatch'')")
  case False
  with assms show ?thesis
    by (auto simp: parseCapsForInnerDriver_def Let_def)
next
  case True
  define h3 where "h3 = snd (cloneDeep rt d (snd (cloneDeep rt w (snd (cloneDeep rt j h)))))"
  obtain o4 h4 where m: "mergeDefaultCapabilities rt True (isPlainObject rt (h ! j)) h3
                    (length h) (Suc (length h)) (Suc (Suc (length h))) = (o4, h4)"
    by (cases "mergeDefaultCapabilities rt True (isPlainObject rt (h ! j)) h3
                    (length h) (Suc (length h)) (Suc (Suc (length h)))") auto
  have m': "mergeDefaultCapabilities rt True (isPlainObject rt (h ! j))
       (h @ [deep_copy rt (h ! j),
         deep_copy rt ((h @ [deep_copy rt (h ! j)]) ! w),
         deep_copy rt ((h @ [deep_copy rt (h ! j), deep_copy rt ((h @ [deep_copy rt (h ! j)]) ! w)]) ! d)])
       (length h) (Suc (length h)) (Suc (Suc (length h))) = (o4, h4)"
    using m unfolding h3_def by (simp add: cloneDeep_def)
  show ?thesis
  proof (cases o4)
    case (Inl e)
    with True m' assms show ?thesis
      by (simp add: parseCapsForInnerDriver_def Let_def cloneDeep_def)
  next
    case (Inr jsonwp2)
    note o4 = this
    show ?thesis
    proof (cases "pc (h4 ! Suc (length h)) c True")
      case (Inl err)
      with True m' o4 assms have
        "r = \<lparr>desiredCaps = Some (JObj []),
               processedJsonwpCapabilities =
                 Some (if isPlainObject rt (h ! j) then JObj (spread rt (h4 ! jsonwp2)) else JNull),
               processedW3CCapabilities = Some JNull, protocol = P, error = Some err\<rparr>"
        and "snd (parseCapsForInnerDriver rt P pc h j w c d) = h4"
        by (simp_all add: parseCapsForInnerDriver_def Let_def cloneDeep_def)
      with True m o4 Inl show ?thesis unfolding h3_def by blast
    next
      case (Inr matched)
      note pm = this
      show ?thesis
      proof (cases "insertAppiumPrefixes rt matched")
        case (Inl e)
        with True m' o4 pm assms show ?thesis
          by (simp add: parseCapsForInnerDriver_def Let_def cloneDeep_def)
      next
        case (Inr prefixed)
        with True m' o4 pm assms have
          "r = \<lparr>desiredCaps = Some matched,
                 processedJsonwpCapabilities =
                   Some (if isPlainObject rt (h ! j) then JObj (spread rt (h4 ! jsonwp2)) else JNull),
                 processedW3CCapabilities =
                   Some (JObj [(''alwaysMatch'', JObj (spread rt prefixed)),
                               (''firstMatch'', JArr [JObj []])]),
                 protocol = P, error = None\<rparr>"
          and "snd (parseCapsForInnerDriver rt P pc h j w c d) = h4"
          by (simp_all add: parseCapsForInnerDriver_def Let_def cloneDeep_def)
        with True m o4 pm Inr show ?thesis unfolding h3_def by blast
      qed
    qed
  qed
qed

lemma mergeDefaultCapabilities_frame:
  "n \<le> b \<Longrightarrow> b < length h3
   \<Longrightarrow> take n (snd (mergeDefaultCapabilities rt hW hJ h3 a b c)) = take n h3"
  by (auto simp: mergeDefaultCapabilities_def alloc_def Let_def split: sum.splits json.splits)


lemma store_prefix_unchanged:
  "take (length h) (snd (parseCapsForInnerDriver rt P pc h j w c d)) = h"
proof (cases "isPlainObject rt (h ! w) \<and> (has rt (h ! w) ''alwaysMatch'' \<or> has rt (h ! w) ''firstMatch'')")
  case False
  then show ?thesis by (auto simp: parseCapsForInnerDriver_def Let_def)
next
  case True
  let ?h3 = "h @ [deep_copy rt (h ! j),
         deep_copy rt ((h @ [deep_copy rt (h ! j)]) ! w),
         deep_copy rt ((h @ [deep_copy rt (h ! j), deep_copy rt ((h @ [deep_copy rt (h ! j)]) ! w)]) ! d)]"
  let ?m = "mergeDefaultCapabilities rt True (isPlainObject rt (h ! j)) ?h3
              (length h) (Suc (length h)) (Suc (Suc (length h)))"
  have "snd (parseCapsForInnerDriver rt P pc h j w c d) = snd ?m"
    using True
    by (cases ?m)
       (auto simp: parseCapsForInnerDriver_def Let_def cloneDeep_def split: sum.splits)
  moreover have "take (length h) (snd ?m) = take (length h) ?h3"
    by (rule mergeDefaultCapabilities_frame) simp_all
  ultimately show ?thesis by simp
qed

lemma parseCaps_returns_or_merge_throws:
  "(\<exists>r. fst (parseCapsForInnerDriver rt P pc h j w c d) = Inr r)
   \<or> (\<exists>e. fst (mergeDefaultCapabilities rt True (isPlainObject rt (h ! j))
                 (snd (cloneDeep rt d (snd (cloneDeep rt w (snd (cloneDeep rt j h))))))
                 (length h) (Suc (length h)) (Suc (Suc (length h)))) = Inl e
          \<and> fst (parseCapsForInnerDriver rt P pc h j w c d) = Inl e)"
proof (cases "isPlainObject rt (h ! w) \<and> (has rt (h ! w) ''alwaysMatch'' \<or> has rt (h ! w) ''firstMatch'')")
  case False
  then show ?thesis by (auto simp: parseCapsForInnerDriver_def Let_def)
next
  case True
  let ?h3 = "h @ [deep_copy rt (h ! j),
         deep_copy rt ((h @ [deep_copy rt (h ! j)]) ! w),
         deep_copy rt ((h @ [deep_copy rt (h ! j), deep_copy rt ((h @ [deep_copy rt (h ! j)]) ! w)]) ! d)]"
  let ?m = "mergeDefaultCapabilities rt True (isPlainObject rt (h ! j)) ?h3
              (length h) (Suc (length h)) (Suc (Suc (length h)))"
  have h3: "snd (cloneDeep rt d (snd (cloneDeep rt w (snd (cloneDeep rt j h))))) = ?h3"
    by (simp add: cloneDeep_def)
  obtain o4 h4 where m: "?m = (o4, h4)" by (cases ?m) auto
  show ?thesis
  proof (cases o4)
    case (Inl e)
    with True m have "fst (parseCapsForInnerDriver rt P pc h j w c d) = Inl e"
      by (simp add: parseCapsForInnerDriver_def Let_def cloneDeep_def)
    with Inl m h3 show ?thesis by simp
  next
    case (Inr jsonwp2)
    obtain prefixed where ip: "\<And>matched. \<exists>p. insertAppiumPrefixes rt matched = Inr (JObj p)"
      using insertAppiumPrefixes_total by blast
    show ?thesis
    proof (cases "pc (h4 ! Suc (length h)) c True")
      case (Inl err)
      with True m Inr have "\<exists>r. fst (parseCapsForInnerDriver rt P pc h j w c d) = Inr r"
        by (simp add: parseCapsForInnerDriver_def Let_def cloneDeep_def)
      then show ?thesis by blast
    next
      case (Inr matched)
      from ip obtain p where "insertAppiumPrefixes rt matched = Inr (JObj p)" by blast
      with True m \<open>o4 = Inr jsonwp2\<close> Inr
      have "\<exists>r. fst (parseCapsForInnerDriver rt P pc h j w c d) = Inr r"
        by (simp add: parseCapsForInnerDriver_def Let_def cloneDeep_def)
      then show ?thesis by blast
    qed
  qed
qed

lemma parseCaps_succeeds:
  assumes w: "isPlainObject rt (h ! w)
              \<and> (has rt (h ! w) ''alwaysMatch'' \<or> has rt (h ! w) ''firstMatch'')"
    and m: "mergeDefaultCapabilities rt True (isPlainObject rt (h ! j))
              (snd (cloneDeep rt d (snd (cloneDeep rt w (snd (cloneDeep rt j h))))))
              (length h) (Suc (length h)) (Suc (Suc (length h))) = (Inr jsonwp2, h4)"
    and e: "pc (h4 ! Suc (length h)) c True = Inr matched"
  shows "\<exists>r. fst (parseCapsForInnerDriver rt P pc h j w c d) = Inr r
             \<and> error r = None \<and> desiredCaps r = Some matched"
proof -
  from insertAppiumPrefixes_total [of rt matched] obtain p where
    i: "insertAppiumPrefixes rt matched = Inr (JObj p)" by blast
  have "parseCapsForInnerDriver rt P pc h j w c d
      = (Inr \<lparr>desiredCaps = Some matched,
               processedJsonwpCapabilities =
                 Some (if isPlainObject rt (h ! j)
                       then JObj (spread rt (h4 ! jsonwp2)) else JNull),
               processedW3CCapabilities =
                 Some (JObj [(''alwaysMatch'', JObj (spread rt (JObj p))),
                             (''firstMatch'', JArr [JObj []])]),
               protocol = P, error = None\<rparr>, h4)"
    using w m e i
    by (simp add: parseCapsForInnerDriver_def Let_def cloneDeep_def)
  then show ?thesis by simp
qed

text \<open>
  Claim C10. On every path on which \<open>parseCapsForInnerDriver\<close> returns a result, the
  \<open>protocol\<close> field of the result is \<open>PROTOCOLS.W3C\<close>: on the return for missing W3C
  capabilities, on the return after a failed match, and on success. It returns a result
  on every input, unless the merge of the default capabilities throws.
\<close>

theorem protocol_is_W3C:
  "(\<forall>r. fst (parseCapsForInnerDriver rt P pc h j w c d) = Inr r \<longrightarrow> protocol r = P)
   \<and> ((\<exists>r. fst (parseCapsForInnerDriver rt P pc h j w c d) = Inr r)
      \<or> (\<exists>e. fst (mergeDefaultCapabilities rt True (isPlainObject rt (h ! j))
                    (snd (cloneDeep rt d (snd (cloneDeep rt w (snd (cloneDeep rt j h))))))
                    (length h) (Suc (length h)) (Suc (Suc (length h)))) = Inl e
             \<and> fst (parseCapsForInnerDriver rt P pc h j w c d) = Inl e))"
proof (intro conjI allI impI)
  fix r assume "fst (parseCapsForInnerDriver rt P pc h j w c d) = Inr r"
  from parseCaps_returns [OF this] show "protocol r = P" by auto
next
  show "(\<exists>r. fst (parseCapsForInnerDriver rt P pc h j w c d) = Inr r)
      \<or> (\<exists>e. fst (mergeDefaultCapabilities rt True (isPlainObject rt (h ! j))
                    (snd (cloneDeep rt d (snd (cloneDeep rt w (snd (cloneDeep rt j h))))))
                    (length h) (Suc (length h)) (Suc (Suc (length h)))) = Inl e
             \<and> fst (parseCapsForInnerDriver rt P pc h j w c d) = Inl e)"
    by (rule parseCaps_returns_or_merge_throws)
qed

theorem protocol_is_W3C_witness:
  "protocol (projr (fst (parseCapsForInnerDriver example_runtime ''W3C'' (\<lambda>w c s. Inr (JObj []))
      [JObj [(''a'', JNum 1)], JNull, JObj []] 0 1 (JObj []) 2))) = ''W3C''
   \<and> protocol (projr (fst (parseCapsForInnerDriver example_runtime ''W3C''
      (\<lambda>w c s. Inl (Error ''no match''))
      [JNull, JObj [(''alwaysMatch'', JObj [])], JObj []] 0 1 (JObj []) 2))) = ''W3C''
   \<and> protocol (projr (fst (parseCapsForInnerDriver example_runtime ''W3C''
      (\<lambda>w c s. Inr (JObj [(''platformName'', JStr ''iOS'')]))
      [JNull, JObj [(''alwaysMatch'', JObj [(''platformName'', JStr ''iOS'')])], JObj []]
      0 1 (JObj []) 2))) = ''W3C''"
proof -
  have a: "fst (parseCapsForInnerDriver example_runtime ''W3C'' (\<lambda>w c s. Inr (JObj []))
      [JObj [(''a'', JNum 1)], JNull, JObj []] 0 1 (JObj []) 2)
    = Inr \<lparr>desiredCaps = None, processedJsonwpCapabilities = None,
           processedW3CCapabilities = None, protocol = ''W3C'',
           error = Some (Error ''W3C capabilities should be provided'')\<rparr>"
    by code_simp
  have b: "fst (parseCapsForInnerDriver example_runtime ''W3C''
      (\<lambda>w c s. Inl (Error ''no match''))
      [JNull, JObj [(''alwaysMatch'', JObj [])], JObj []] 0 1 (JObj []) 2)
    = Inr \<lparr>desiredCaps = Some (JObj []), processedJsonwpCapabilities = Some JNull,
           processedW3CCapabilities = Some JNull, protocol = ''W3C'',
           error = Some (Error ''no match'')\<rparr>"
    by code_simp
  have c: "fst (parseCapsForInnerDriver example_runtime ''W3C''
      (\<lambda>w c s. Inr (JObj [(''platformName'', JStr ''iOS'')]))
      [JNull, JObj [(''alwaysMatch'', JObj [(''platformName'', JStr ''iOS'')])], JObj []]
      0 1 (JObj []) 2)
    = Inr \<lparr>desiredCaps = Some (JObj [(''platformName'', JStr ''iOS'')]),
           processedJsonwpCapabilities = Some JNull,
           processedW3CCapabilities =
             Some (JObj [(''alwaysMatch'', JObj [(''platformName'', JStr ''iOS'')]),
                         (''firstMatch'', JArr [JObj []])]),
           protocol = ''W3C'', error = None\<rparr>"
    by code_simp
  note pa = conjunct1 [OF protocol_is_W3C, rule_format, OF a]
  note pb = conjunct1 [OF protocol_is_W3C, rule_format, OF b]
  note pc = conjunct1 [OF protocol_is_W3C, rule_format, OF c]
  show ?thesis unfolding a b c sum.sel using pa pb pc by (intro conjI)
qed

text \<open>
  Claim C9. When \<open>parseCapsForInnerDriver\<close> returns without an error, the matching engine
  has returned a mapping \<open>matched\<close> on the merged clone of the payload, \<open>desiredCaps\<close> is
  that mapping, and \<open>processedW3CCapabilities\<close> is
  \<open>{alwaysMatch: insertAppiumPrefixes(matched), firstMatch: [{}]}\<close>. And the call does return
  without an error whenever W3C capabilities are there, the defaults are merged without a
  throw and the engine returns a mapping on the merged clone.
\<close>

theorem success_wraps_matched_caps:
  "(\<forall>r. fst (parseCapsForInnerDriver rt P pc h j w c d) = Inr r \<and> error r = None \<longrightarrow>
      (\<exists>matched prefixed.
           pc (snd (parseCapsForInnerDriver rt P pc h j w c d) ! Suc (length h)) c True
             = Inr matched
         \<and> desiredCaps r = Some matched
         \<and> insertAppiumPrefixes rt matched = Inr (JObj prefixed)
         \<and> processedW3CCapabilities r =
             Some (JObj [(''alwaysMatch'', JObj prefixed),
                         (''firstMatch'', JArr [JObj []])])))
   \<and> (\<forall>jsonwp2 h4 matched.
        isPlainObject rt (h ! w)
        \<and> (has rt (h ! w) ''alwaysMatch'' \<or> has rt (h ! w) ''firstMatch'')
        \<and> mergeDefaultCapabilities rt True (isPlainObject rt (h ! j))
              (snd (cloneDeep rt d (snd (cloneDeep rt w (snd (cloneDeep rt j h))))))
              (length h) (Suc (length h)) (Suc (Suc (length h))) = (Inr jsonwp2, h4)
        \<and> pc (h4 ! Suc (length h)) c True = Inr matched \<longrightarrow>
        (\<exists>r. fst (parseCapsForInnerDriver rt P pc h j w c d) = Inr r
              \<and> error r = None \<and> desiredCaps r = Some matched))"
proof (intro conjI allI impI)
  fix r
  assume a: "fst (parseCapsForInnerDriver rt P pc h j w c d) = Inr r \<and> error r = None"
  then have ret: "fst (parseCapsForInnerDriver rt P pc h j w c d) = Inr r"
    and ok: "error r = None" by simp_all
  from parseCaps_returns [OF ret] ok obtain h4 matched p0 where
    s: "snd (parseCapsForInnerDriver rt P pc h j w c d) = h4"
    and m: "pc (h4 ! Suc (length h)) c True = Inr matched"
    and i: "insertAppiumPrefixes rt matched = Inr p0"
    and d: "desiredCaps r = Some matched"
    and p: "processedW3CCapabilities r =
              Some (JObj [(''alwaysMatch'', JObj (spread rt p0)),
                          (''firstMatch'', JArr [JObj []])])"
    by auto
  from insertAppiumPrefixes_total [of rt matched] obtain prefixed where
    t: "insertAppiumPrefixes rt matched = Inr (JObj prefixed)"
       "spread rt (JObj prefixed) = prefixed"
    by blast
  from i t have "spread rt p0 = prefixed" by simp
  with s m d p t(1) show "\<exists>matched prefixed.
           pc (snd (parseCapsForInnerDriver rt P pc h j w c d) ! Suc (length h)) c True
             = Inr matched
         \<and> desiredCaps r = Some matched
         \<and> insertAppiumPrefixes rt matched = Inr (JObj prefixed)
         \<and> processedW3CCapabilities r =
             Some (JObj [(''alwaysMatch'', JObj prefixed),
                         (''firstMatch'', JArr [JObj []])])"
    by simp
next
  fix jsonwp2 h4 matched
  assume a: "isPlainObject rt (h ! w)
        \<and> (has rt (h ! w) ''alwaysMatch'' \<or> has rt (h ! w) ''firstMatch'')
        \<and> mergeDefaultCapabilities rt True (isPlainObject rt (h ! j))
              (snd (cloneDeep rt d (snd (cloneDeep rt w (snd (cloneDeep rt j h))))))
              (length h) (Suc (length h)) (Suc (Suc (length h))) = (Inr jsonwp2, h4)
        \<and> pc (h4 ! Suc (length h)) c True = Inr matched"
  show "\<exists>r. fst (parseCapsForInnerDriver rt P pc h j w c d) = Inr r
              \<and> error r = None \<and> desiredCaps r = Some matched"
  proof (rule parseCaps_succeeds)
    show "isPlainObject rt (h ! w)
          \<and> (has rt (h ! w) ''alwaysMatch'' \<or> has rt (h ! w) ''firstMatch'')"
      using a by simp
    show "mergeDefaultCapabilities rt True (isPlainObject rt (h ! j))
              (snd (cloneDeep rt d (snd (cloneDeep rt w (snd (cloneDeep rt j h))))))
              (length h) (Suc (length h)) (Suc (Suc (length h))) = (Inr jsonwp2, h4)"
      using a by simp
    show "pc (h4 ! Suc (length h)) c True = Inr matched" using a by simp
  qed
qed

theorem success_wraps_matched_caps_witness:
  "fst (parseCapsForInnerDriver example_runtime ''W3C''
           (\<lambda>w c s. if w = JObj [(''firstMatch'', JArr [JObj [(''deviceName'', JStr ''emu'')]])]
                     then Inr (JObj [(''deviceName'', JStr ''emu'')]) else Inl (Error ''no match''))
           [JNull, JObj [(''firstMatch'', JArr [JObj []])], JObj [(''deviceName'', JStr ''emu'')]]
           0 1 (JObj []) 2)
     = Inr \<lparr>desiredCaps = Some (JObj [(''deviceName'', JStr ''emu'')]),
            processedJsonwpCapabilities = Some JNull,
            processedW3CCapabilities =
              Some (JObj [(''alwaysMatch'', JObj [(''appium:deviceName'', JStr ''emu'')]),
                          (''firstMatch'', JArr [JObj []])]),
            protocol = ''W3C'', error = None\<rparr>
   \<and> insertAppiumPrefixes example_runtime (JObj [(''deviceName'', JStr ''emu'')])
       = Inr (JObj [(''appium:deviceName'', JStr ''emu'')])"
proof -
  let ?pc = "\<lambda>(w::string json) (c::string json) (s::bool).
      if w = JObj [(''firstMatch'', JArr [JObj [(''deviceName'', JStr ''emu'')]])]
      then (Inr (JObj [(''deviceName'', JStr ''emu'')]) :: exn + string json)
      else Inl (Error ''no match'')"
  let ?h = "[JNull, JObj [(''firstMatch'', JArr [JObj []])],
             JObj [(''deviceName'', JStr ''emu'')]] :: string json list"
  let ?r = "\<lparr>desiredCaps = Some (JObj [(''deviceName'', JStr ''emu'')]),
           processedJsonwpCapabilities = Some JNull,
           processedW3CCapabilities =
             Some (JObj [(''alwaysMatch'', JObj [(''appium:deviceName'', JStr ''emu'')]),
                         (''firstMatch'', JArr [JObj []])]),
           protocol = ''W3C'', error = None\<rparr> :: (string, string) result"
  have a: "fst (parseCapsForInnerDriver example_runtime ''W3C'' ?pc ?h 0 1 (JObj []) 2) = Inr ?r"
    by code_simp
  have e: "error ?r = None" by simp
  from conjunct1 [OF success_wraps_matched_caps, rule_format, OF conjI [OF a e]]
  obtain matched prefixed where
    m: "desiredCaps ?r = Some matched"
       "insertAppiumPrefixes example_runtime matched = Inr (JObj prefixed)"
       "processedW3CCapabilities ?r =
          Some (JObj [(''alwaysMatch'', JObj prefixed), (''firstMatch'', JArr [JObj []])])"
    by blast
  from m(1) have "matched = JObj [(''deviceName'', JStr ''emu'')]" by simp
  moreover from m(3) have "prefixed = [(''appium:deviceName'', JStr ''emu'')]" by simp
  ultimately have "insertAppiumPrefixes example_runtime (JObj [(''deviceName'', JStr ''emu'')])
       = Inr (JObj [(''appium:deviceName'', JStr ''emu'')])"
    using m(2) by simp
  with a show ?thesis by (intro conjI)
qed

text \<open>
  Claim C4. Whatever \<open>parseCapsForInnerDriver\<close> does (return a result or throw), every cell
  that the store held before the call holds the same value after it; in particular the
  caller's legacy dictionary, W3C payload and default capabilities are unchanged.
\<close>

theorem caller_objects_unchanged:
  "take (length h) (snd (parseCapsForInnerDriver rt P pc h j w c d)) = h
   \<and> (j < length h \<longrightarrow> snd (parseCapsForInnerDriver rt P pc h j w c d) ! j = h ! j)
   \<and> (w < length h \<longrightarrow> snd (parseCapsForInnerDriver rt P pc h j w c d) ! w = h ! w)
   \<and> (d < length h \<longrightarrow> snd (parseCapsForInnerDriver rt P pc h j w c d) ! d = h ! d)"
proof -
  let ?h' = "snd (parseCapsForInnerDriver rt P pc h j w c d)"
  have t: "take (length h) ?h' = h" by (rule store_prefix_unchanged)
  have "\<And>a. a < length h \<Longrightarrow> ?h' ! a = h ! a"
  proof -
    fix a assume "a < length h"
    then have "take (length h) ?h' ! a = ?h' ! a" by simp
    with t show "?h' ! a = h ! a" by simp
  qed
  with t show ?thesis by blast
qed

theorem caller_objects_unchanged_witness:
  "take (length ([JObj [(''a'', JNum 1)], JObj [(''firstMatch'', JArr [JObj []])],
                  JObj [(''deviceName'', JStr ''emu'')]] :: string json list))
     (snd (parseCapsForInnerDriver example_runtime ''W3C'' (\<lambda>w c s. Inr (JObj []))
        [JObj [(''a'', JNum 1)], JObj [(''firstMatch'', JArr [JObj []])],
         JObj [(''deviceName'', JStr ''emu'')]] 0 1 (JObj [] :: string json) 2))
     = [JObj [(''a'', JNum 1)], JObj [(''firstMatch'', JArr [JObj []])],
        JObj [(''deviceName'', JStr ''emu'')]]
   \<and> snd (parseCapsForInnerDriver example_runtime ''W3C'' (\<lambda>w c s. Inr (JObj []))
      [JObj [(''a'', JNum 1)], JObj [(''firstMatch'', JArr [JObj []])],
       JObj [(''deviceName'', JStr ''emu'')]] 0 1 (JObj [] :: string json) 2) ! 4
     = JObj [(''firstMatch'', JArr [JObj [(''deviceName'', JStr ''emu'')]])]"
proof -
  let ?h = "[JObj [(''a'', JNum 1)], JObj [(''firstMatch'', JArr [JObj []])],
       JObj [(''deviceName'', JStr ''emu'')]] :: string json list"
  have "snd (parseCapsForInnerDriver example_runtime ''W3C'' (\<lambda>w c s. Inr (JObj [])) ?h
          0 1 (JObj [] :: string json) 2) ! 4
     = JObj [(''firstMatch'', JArr [JObj [(''deviceName'', JStr ''emu'')]])]"
    by code_simp
  with conjunct1 [OF caller_objects_unchanged
      [of ?h example_runtime "''W3C''" "\<lambda>w c s. Inr (JObj [])" 0 1 "JObj [] :: string json" 2]]
  show ?thesis by (intro conjI)
qed






section \<open>Defaults\<close>










section \<open>Side effects\<close>

text \<open>
  Claim C8, as the code has it. \<open>parseCapsForInnerDriver\<close> leaves every cell of the
  caller's store as it was. \<open>parseDriverPluginArgs\<close> returns the caller's \<open>args\<close> object
  untouched when the supplied arguments or the constraints are empty, and leaves it
  untouched when \<open>parseKnownArgs\<close> or the validator throws; when both succeed it writes the
  validated pairs into the caller's \<open>args\<close> object itself and returns that object: the
  validated value wins on a shared key and the other keys of \<open>args\<close> keep their values.
\<close>

theorem parseDriverPluginArgs_overlay_in_place:
  "(supplied = [] \<or> constraints = [] \<longrightarrow>
      parseDriverPluginArgs rt validateCaps args supplied constraints = (Inr args, args))
   \<and> (supplied \<noteq> [] \<and> constraints \<noteq> [] \<longrightarrow>
        (\<forall>e. parseKnownArgs rt supplied constraints = Inl e \<longrightarrow>
           parseDriverPluginArgs rt validateCaps args supplied constraints = (Inl e, args))
      \<and> (\<forall>parsed e. parseKnownArgs rt supplied constraints = Inr parsed
                      \<and> validateCaps parsed constraints = Inl e \<longrightarrow>
           parseDriverPluginArgs rt validateCaps args supplied constraints = (Inl e, args))
      \<and> (\<forall>parsed validated. parseKnownArgs rt supplied constraints = Inr parsed
                      \<and> validateCaps parsed constraints = Inr validated \<longrightarrow>
           parseDriverPluginArgs rt validateCaps args supplied constraints
             = (Inr (lodash_assign rt args validated), lodash_assign rt args validated)
         \<and> map_of (lodash_assign rt args validated)
             = map_of args ++ map_of (rev (toPairs rt validated))))
   \<and> take (length h) (snd (parseCapsForInnerDriver rt P pc h j w c d)) = h"
proof (intro conjI impI allI)
  assume "supplied = [] \<or> constraints = []"
  then show "parseDriverPluginArgs rt validateCaps args supplied constraints = (Inr args, args)"
    by (simp add: parseDriverPluginArgs_def)
next
  fix e
  assume "supplied \<noteq> [] \<and> constraints \<noteq> []" "parseKnownArgs rt supplied constraints = Inl e"
  then show "parseDriverPluginArgs rt validateCaps args supplied constraints = (Inl e, args)"
    by (simp add: parseDriverPluginArgs_def)
next
  fix parsed e
  assume "supplied \<noteq> [] \<and> constraints \<noteq> []"
    "parseKnownArgs rt supplied constraints = Inr parsed \<and> validateCaps parsed constraints = Inl e"
  then show "parseDriverPluginArgs rt validateCaps args supplied constraints = (Inl e, args)"
    by (simp add: parseDriverPluginArgs_def)
next
  fix parsed validated
  assume "supplied \<noteq> [] \<and> constraints \<noteq> []"
    "parseKnownArgs rt supplied constraints = Inr parsed
     \<and> validateCaps parsed constraints = Inr validated"
  then show "parseDriverPluginArgs rt validateCaps args supplied constraints
             = (Inr (lodash_assign rt args validated), lodash_assign rt args validated)"
    by (simp add: parseDriverPluginArgs_def Let_def)
next
  fix parsed validated
  show "map_of (lodash_assign rt args validated)
             = map_of args ++ map_of (rev (toPairs rt validated))"
    unfolding lodash_assign_def by (rule map_of_define_all)
next
  show "take (length h) (snd (parseCapsForInnerDriver rt P pc h j w c d)) = h"
    by (rule store_prefix_unchanged)
qed

theorem parseDriverPluginArgs_overlay_in_place_witness:
  "parseDriverPluginArgs example_runtime (\<lambda>p c. Inr p)
      [(''port'', JNum 4723), (''host'', JStr ''a'')]
      [(''port'', JNum 1)] [(''port'', JObj [])]
     = (Inr [(''port'', JNum 1), (''host'', JStr ''a'')],
        [(''port'', JNum 1), (''host'', JStr ''a'')])"
proof -
  let ?v = "\<lambda>(p::string json) (c::string obj). (Inr p :: exn + string json)"
  let ?args = "[(''port'', JNum 4723), (''host'', JStr ''a'')] :: string obj"
  let ?s = "[(''port'', JNum 1)] :: string obj"
  let ?c = "[(''port'', JObj [])] :: string obj"
  have ne: "?s \<noteq> [] \<and> ?c \<noteq> []" by simp
  have p: "parseKnownArgs example_runtime ?s ?c = Inr (JObj [(''port'', JNum 1)])
           \<and> ?v (JObj [(''port'', JNum 1)]) ?c = Inr (JObj [(''port'', JNum 1)])"
    by code_simp
  note t = conjunct1 [OF conjunct2
      [OF parseDriverPluginArgs_overlay_in_place
            [of ?s ?c example_runtime ?v ?args "[]" "''W3C''" "\<lambda>w c s. Inr (JObj [])" 0 0
                "JObj []" 0]]]
  note u = conjunct2 [OF conjunct2 [OF mp [OF t ne]]]
  have "parseDriverPluginArgs example_runtime ?v ?args ?s ?c
      = (Inr (lodash_assign example_runtime ?args (JObj [(''port'', JNum 1)])),
         lodash_assign example_runtime ?args (JObj [(''port'', JNum 1)]))"
    by (rule conjunct1 [OF mp [OF spec [OF spec [OF u]] p]])
  moreover have "lodash_assign example_runtime ?args (JObj [(''port'', JNum 1)])
      = [(''port'', JNum 1), (''host'', JStr ''a'')]"
    by code_simp
  ultimately show ?thesis by simp
qed

theorem parseDriverPluginArgs_mutates_args_counterexample:
  "snd (parseDriverPluginArgs example_runtime (\<lambda>p c. Inr p)
          [(''host'', JStr ''a'')] [(''port'', JNum 1)] [(''port'', JObj [])])
     = [(''host'', JStr ''a''), (''port'', JNum 1)]"
  by code_simp

end
